theory Spec2Isabelle
  imports Complex_Main
begin

section \<open>The pull-request reviewer of \<^verbatim>\<open>src/agent.py\<close>\<close>

text \<open>
  The reviewer talks to two remote services (the repository host through PyGithub and the
  completion service through the OpenAI client). Neither library is part of the repository,
  so the model takes their behaviour as a parameter: a record \<open>world\<close> of response
  functions, one per remote call the code makes. Every theorem below is stated for an
  arbitrary world. A Python exception is a value \<open>exn\<close>; a call that may raise returns
  \<open>exn + 'a\<close> with \<open>Inl\<close> for the raised exception. Every remote call appends an event
  to a trace, which is passed through the functions explicitly.

  The answers of a world are functions of the request: a world describes the two services
  at one moment. A run against one world is a run in which a service answers the same
  request in the same way whenever it is asked; the clock alone is read as a function of
  the calls made so far. Services that change their answers during a run (a fetch that
  succeeds once and fails when repeated) are hosts, functions from the history of calls to
  the world in force; the run against a host is defined after the run against a world, and
  the theorem on publication is stated for every host.

  Only subclasses of \<^verbatim>\<open>Exception\<close> are modelled (what \<^verbatim>\<open>except Exception\<close> catches);
  task cancellation and interpreter exits are outside the model. Log output is not
  modelled, and neither is a failure to construct the two clients on entering the session.
\<close>

subsection \<open>Exceptions\<close>

text \<open>The code reads only \<^verbatim>\<open>str(e)\<close> of an exception, so an exception is its message.\<close>

datatype exn = Exn (str: string)

definition IndexError :: exn where
  "IndexError = Exn ''list index out of range''"

definition ValueError_range :: exn where
  "ValueError_range = Exn ''range() arg 3 must not be zero''"

definition AttributeError_chat :: exn where
  "AttributeError_chat =
     Exn ([CHR 0x27] @ ''NoneType'' @ [CHR 0x27] @ '' object has no attribute '' @
          [CHR 0x27] @ ''chat'' @ [CHR 0x27])"

subsection \<open>Python string and list primitives\<close>

text \<open>
  \<^verbatim>\<open>s.split(sep)\<close> with a one-character separator: the pieces between the occurrences
  of the separator, always at least one piece.
\<close>

fun split_acc :: "char \<Rightarrow> string \<Rightarrow> string \<Rightarrow> string list" where
  "split_acc sep cur [] = [cur]"
| "split_acc sep cur (c # cs) =
     (if c = sep then cur # split_acc sep [] cs else split_acc sep (cur @ [c]) cs)"

definition str_split :: "string \<Rightarrow> char \<Rightarrow> string list" where
  "str_split s sep = split_acc sep [] s"

text \<open>
  \<^verbatim>\<open>s.lower()\<close>, on the ASCII letters. Characters of the model are bytes; Python lower-cases
  letters beyond ASCII as well, which the model leaves unchanged.
\<close>

definition lower_char :: "char \<Rightarrow> char" where
  "lower_char c =
     (let n = (of_char c :: nat) in if 65 \<le> n \<and> n \<le> 90 then char_of (n + 32) else c)"

definition lower :: "string \<Rightarrow> string" where
  "lower s = map lower_char s"

text \<open>\<^verbatim>\<open>xs[-1]\<close>: the last element, IndexError on the empty list.\<close>

definition index_last :: "'a list \<Rightarrow> exn + 'a" where
  "index_last xs = (case xs of [] \<Rightarrow> Inl IndexError | _ # _ \<Rightarrow> Inr (last xs))"

text \<open>\<^verbatim>\<open>sep.join(xs)\<close>.\<close>

fun join :: "string \<Rightarrow> string list \<Rightarrow> string" where
  "join sep [] = []"
| "join sep [x] = x"
| "join sep (x # y # ys) = x @ sep @ join sep (y # ys)"

text \<open>
  \<^verbatim>\<open>xs[:m]\<close> for an integer \<open>m\<close>: the first \<open>m\<close> elements, and for a negative \<open>m\<close> all
  but the last \<open>-m\<close>.
\<close>

definition slice_to :: "'a list \<Rightarrow> int \<Rightarrow> 'a list" where
  "slice_to xs m = (if 0 \<le> m then take (nat m) xs else take (length xs - nat (- m)) xs)"

text \<open>\<^verbatim>\<open>xs[i:j]\<close> for \<open>0 \<le> i \<le> j\<close>.\<close>

definition slice :: "'a list \<Rightarrow> nat \<Rightarrow> nat \<Rightarrow> 'a list" where
  "slice xs i j = take (j - i) (drop i xs)"

text \<open>
  \<^verbatim>\<open>range(0, stop, step)\<close>: ValueError for a zero step, nothing for a negative step (the
  start 0 is not above a length), and for a positive step the indices \<open>0, step, 2 * step, ...\<close>
  below \<open>stop\<close>, produced one after the other as the iterator does.
\<close>

function range_from :: "nat \<Rightarrow> nat \<Rightarrow> nat \<Rightarrow> nat list" where
  "range_from i stop step =
     (if 0 < step \<and> i < stop then i # range_from (i + step) stop step else [])"
  by pat_completeness auto
termination
  by (relation "measure (\<lambda>(i, stop, step). stop - i)") auto

definition range0 :: "nat \<Rightarrow> int \<Rightarrow> exn + nat list" where
  "range0 stop step =
     (if step = 0 then Inl ValueError_range
      else if step < 0 then Inr []
      else Inr (range_from 0 stop (nat step)))"

text \<open>
  The formatting of a value inside an f-string: a string as it is, \<^verbatim>\<open>None\<close> as the
  text \<^verbatim>\<open>None\<close>.
\<close>

definition format_opt :: "string option \<Rightarrow> string" where
  "format_opt v = (case v of None \<Rightarrow> ''None'' | Some s \<Rightarrow> s)"

subsection \<open>Configuration (class PRReviewConfig)\<close>

record PRReviewConfig =
  max_files_to_review :: int
  max_changes_per_file :: int
  openai_model :: string
  openai_temperature :: real
  batch_size :: int
  review_categories :: "string list"
  language_specific_rules :: "(string \<times> string list) list"
  ignore_patterns :: "string list"

definition default_config :: PRReviewConfig where
  "default_config =
     \<lparr> max_files_to_review = 50,
       max_changes_per_file = 500,
       openai_model = ''gpt-4'',
       openai_temperature = 3 / 10,
       batch_size = 5,
       review_categories =
         [''code_quality'', ''security'', ''performance'', ''maintainability'', ''testing''],
       language_specific_rules =
         [(''python'',
             [''PEP 8 compliance'', ''Type hints'', ''Docstrings'', ''Error handling'',
              ''Code complexity'']),
          (''javascript'',
             [''ESLint rules'', ''Modern ES6+ features'', ''Error handling'',
              ''Code organization''])],
       ignore_patterns = [''*.lock'', ''*.md'', ''*.txt''] \<rparr>"

text \<open>\<^verbatim>\<open>d.get(key, [])\<close> on the dictionary of rule sets.\<close>

definition dict_get :: "(string \<times> 'v list) list \<Rightarrow> string \<Rightarrow> 'v list" where
  "dict_get d k = (case map_of d k of None \<Rightarrow> [] | Some v \<Rightarrow> v)"

subsection \<open>Objects of the two remote services\<close>

datatype repository = Repository (full_name: string)

record pull_request =
  pr_number :: int
  pr_title :: string
  pr_body :: "string option"
  pr_base_ref :: string
  pr_head_ref :: string
  pr_created_at :: string
  pr_updated_at :: string

text \<open>An entry of \<^verbatim>\<open>pr.get_files()\<close>; the patch is \<^verbatim>\<open>None\<close> for a file without a diff.\<close>

record changed_file =
  filename :: string
  patch :: "string option"

text \<open>
  What \<^verbatim>\<open>repo.get_contents\<close> returns: a file object, whose
  \<^verbatim>\<open>decoded_content.decode('utf-8')\<close> gives the text or raises, or an object without the
  attribute \<^verbatim>\<open>decoded_content\<close> (the listing of a directory).
\<close>

datatype contents = ContentFile "exn + string" | NoDecodedContent

datatype message = Message (role: string) (content: string)

text \<open>A completion response: the \<^verbatim>\<open>message.content\<close> of each of its choices.\<close>

datatype completion = Completion (choices: "string option list")

datatype handle = ClientSession | AsyncOpenAI

text \<open>
  The calls to the outside, with their arguments: the four of the repository host that the
  code uses and the listing of the files, the completion request (model, messages,
  temperature), and the closing of the two network handles.
\<close>

datatype event =
    is_GetRepo: GetRepo string
  | is_GetPull: GetPull repository int
  | is_GetFiles: GetFiles pull_request
  | is_GetContents: GetContents repository string string
  | is_ChatCreate: ChatCreate string "message list" real
  | is_CreateReview: CreateReview pull_request string string
  | is_SessionClose: SessionClose
  | is_OpenAIClose: OpenAIClose

record world =
  get_repo :: "string \<Rightarrow> exn + repository"
  get_pull :: "repository \<Rightarrow> int \<Rightarrow> exn + pull_request"
  get_files :: "pull_request \<Rightarrow> exn + changed_file list"
  get_contents :: "repository \<Rightarrow> string \<Rightarrow> string \<Rightarrow> exn + contents"
  chat_create :: "string \<Rightarrow> message list \<Rightarrow> real \<Rightarrow> exn + completion"
  create_review :: "pull_request \<Rightarrow> string \<Rightarrow> string \<Rightarrow> exn + unit"
  session_close :: "exn + unit"
  openai_close :: "exn + unit"
  utcnow_isoformat :: "event list \<Rightarrow> string"

text \<open>
  The clock is read as a function of the calls made so far, so that two findings of one run
  may carry any two timestamps.
\<close>

subsection \<open>The reviewer (class PRReviewer)\<close>

record PRReviewer =
  config :: PRReviewConfig
  session :: "handle option"
  openai_client :: "handle option"

text \<open>\<^verbatim>\<open>__init__\<close> with both credentials present, as the module's environment gives them.\<close>

definition init :: PRReviewer where
  "init = \<lparr> config = default_config, session = None, openai_client = None \<rparr>"

definition aenter :: "PRReviewer \<Rightarrow> PRReviewer" where
  "aenter self = self \<lparr> session := Some ClientSession, openai_client := Some AsyncOpenAI \<rparr>"


text \<open>
  \<^verbatim>\<open>__aexit__\<close>: closes the HTTP session if it is set, then the completion client if it is
  set. There is no exception handler: a close that raises ends the method there.
\<close>

definition aexit :: "world \<Rightarrow> PRReviewer \<Rightarrow> event list \<Rightarrow> (exn + unit) \<times> event list" where
  "aexit w self t =
     (case (case session self of
              None \<Rightarrow> (Inr (), t)
            | Some _ \<Rightarrow> (session_close w, t @ [SessionClose])) of
        (Inl e, t1) \<Rightarrow> (Inl e, t1)
      | (Inr _, t1) \<Rightarrow>
          (case openai_client self of
             None \<Rightarrow> (Inr (), t1)
           | Some _ \<Rightarrow> (openai_close w, t1 @ [OpenAIClose])))"

subsection \<open>fetch_pr_details\<close>

record pr_details =
  title :: string
  description :: "string option"
  files :: "string list"
  base_branch :: string
  head_branch :: string
  created_at :: string
  updated_at :: string

definition fetch_pr_details ::
  "world \<Rightarrow> string \<Rightarrow> int \<Rightarrow> event list \<Rightarrow> (exn + pr_details) \<times> event list" where
  "fetch_pr_details w repo_name number t =
     (let t1 = t @ [GetRepo repo_name] in
      case get_repo w repo_name of
        Inl e \<Rightarrow> (Inl e, t1)
      | Inr repo \<Rightarrow>
          (let t2 = t1 @ [GetPull repo number] in
           case get_pull w repo number of
             Inl e \<Rightarrow> (Inl e, t2)
           | Inr pr \<Rightarrow>
               (let t3 = t2 @ [GetFiles pr] in
                case get_files w pr of
                  Inl e \<Rightarrow> (Inl e, t3)
                | Inr fs \<Rightarrow>
                    (Inr \<lparr> title = pr_title pr,
                           description = pr_body pr,
                           files = map filename fs,
                           base_branch = pr_base_ref pr,
                           head_branch = pr_head_ref pr,
                           created_at = pr_created_at pr,
                           updated_at = pr_updated_at pr \<rparr>, t3))))"

subsection \<open>_analyze_file_content\<close>

text \<open>The dictionary a per-file analysis returns.\<close>

record finding =
  review_filename :: string
  analysis :: "string option"
  timestamp :: string

text \<open>Line 160: \<^verbatim>\<open>filename.split('.')[-1].lower()\<close>.\<close>

definition file_ext_of :: "string \<Rightarrow> exn + string" where
  "file_ext_of fname =
     (case index_last (str_split fname (CHR ''.'')) of
        Inl e \<Rightarrow> Inl e
      | Inr s \<Rightarrow> Inr (lower s))"

text \<open>Lines 163 to 179: the f-string, each line of the template with its indentation.\<close>

definition prompt_text :: "string \<Rightarrow> string \<Rightarrow> string list \<Rightarrow> string \<Rightarrow> string" where
  "prompt_text fname file_ext language_rules ptch =
     concat
      [''\<newline>'',
       ''            Review the following code changes and provide feedback on:\<newline>'',
       ''            1. Code quality and best practices\<newline>'',
       ''            2. Potential security issues\<newline>'',
       ''            3. Performance considerations\<newline>'',
       ''            4. Maintainability\<newline>'',
       ''            5. Testing coverage\<newline>'',
       ''            \<newline>'',
       ''            File: '', fname, ''\<newline>'',
       ''            Language: '', file_ext, ''\<newline>'',
       ''            Specific rules to check: '', join '', '' language_rules, ''\<newline>'',
       ''            \<newline>'',
       ''            Code changes:\<newline>'',
       ''            '', ptch, ''\<newline>'',
       ''            \<newline>'',
       ''            Please provide structured feedback with specific examples and suggestions for improvement.\<newline>'',
       ''            '']"

definition system_prompt :: string where
  "system_prompt =
     ''You are an expert code reviewer focusing on code quality, security, and best practices.''"

text \<open>Lines 160 to 186: the messages of the completion request.\<close>

definition build_messages :: "PRReviewConfig \<Rightarrow> string \<Rightarrow> string \<Rightarrow> exn + message list" where
  "build_messages cfg fname ptch =
     (case file_ext_of fname of
        Inl e \<Rightarrow> Inl e
      | Inr file_ext \<Rightarrow>
          (let language_rules = dict_get (language_specific_rules cfg) file_ext;
               prompt = prompt_text fname file_ext language_rules ptch
           in Inr [Message ''system'' system_prompt, Message ''user'' prompt]))"

definition analyze_file_content ::
  "world \<Rightarrow> PRReviewer \<Rightarrow> string \<Rightarrow> string \<Rightarrow> string \<Rightarrow> event list
     \<Rightarrow> (exn + finding) \<times> event list" where
  "analyze_file_content w self file_content fname ptch t =
     (case build_messages (config self) fname ptch of
        Inl e \<Rightarrow> (Inl e, t)
      | Inr messages \<Rightarrow>
          (case openai_client self of
             None \<Rightarrow> (Inl AttributeError_chat, t)
           | Some _ \<Rightarrow>
               (let model = openai_model (config self);
                    temperature = openai_temperature (config self);
                    t1 = t @ [ChatCreate model messages temperature]
                in case chat_create w model messages temperature of
                     Inl e \<Rightarrow> (Inl e, t1)
                   | Inr response \<Rightarrow>
                       (case choices response of
                          [] \<Rightarrow> (Inl IndexError, t1)
                        | c # _ \<Rightarrow>
                            (Inr \<lparr> review_filename = fname,
                                   analysis = c,
                                   timestamp = utcnow_isoformat w t1 \<rparr>, t1)))))"

subsection \<open>_analyze_file\<close>

text \<open>
  Line 120: the text of the fetched object, the empty string when it has no
  \<^verbatim>\<open>decoded_content\<close>.
\<close>

definition decode_content :: "contents \<Rightarrow> exn + string" where
  "decode_content c = (case c of ContentFile d \<Rightarrow> d | NoDecodedContent \<Rightarrow> Inr [])"

text \<open>\<^verbatim>\<open>file.patch or ""\<close>.\<close>

definition patch_or_empty :: "changed_file \<Rightarrow> string" where
  "patch_or_empty file = (case patch file of None \<Rightarrow> [] | Some p \<Rightarrow> p)"

text \<open>The body of the \<^verbatim>\<open>try\<close> block, lines 113 to 126.\<close>

definition analyze_file_try ::
  "world \<Rightarrow> PRReviewer \<Rightarrow> repository \<Rightarrow> pull_request \<Rightarrow> changed_file \<Rightarrow> event list
     \<Rightarrow> (exn + finding) \<times> event list" where
  "analyze_file_try w self repo pr file t =
     (let t1 = t @ [GetContents repo (filename file) (pr_head_ref pr)] in
      case get_contents w repo (filename file) (pr_head_ref pr) of
        Inl e \<Rightarrow> (Inl e, t1)
      | Inr c \<Rightarrow>
          (case decode_content c of
             Inl e \<Rightarrow> (Inl e, t1)
           | Inr file_content \<Rightarrow>
               analyze_file_content w self file_content (filename file) (patch_or_empty file) t1))"

text \<open>
  The whole method: the handler of \<^verbatim>\<open>except Exception\<close> turns the exception into a
  finding. The result keeps the type of a task's outcome under
  \<^verbatim>\<open>gather(..., return_exceptions=True)\<close>, a finding or an exception.
\<close>

definition analyze_file ::
  "world \<Rightarrow> PRReviewer \<Rightarrow> repository \<Rightarrow> pull_request \<Rightarrow> changed_file \<Rightarrow> event list
     \<Rightarrow> (exn + finding) \<times> event list" where
  "analyze_file w self repo pr file t =
     (case analyze_file_try w self repo pr file t of
        (Inr r, t1) \<Rightarrow> (Inr r, t1)
      | (Inl e, t1) \<Rightarrow>
          (Inr \<lparr> review_filename = filename file,
                 analysis = Some (''Error analyzing file: '' @ str e),
                 timestamp = utcnow_isoformat w t1 \<rparr>, t1))"

subsection \<open>analyze_code_changes\<close>

text \<open>
  A task under \<^verbatim>\<open>asyncio.gather\<close> runs up to its first await, the content fetch handed to
  the executor (lines 114 to 118), and goes on when the fetch has answered. This is the
  rest of the method from there: the rest of the \<^verbatim>\<open>try\<close> block (lines 120 to 126), given
  what the fetch answered, under the same handler.
\<close>

definition analyze_file_rest ::
  "world \<Rightarrow> PRReviewer \<Rightarrow> changed_file \<Rightarrow> exn + contents \<Rightarrow> event list
     \<Rightarrow> (exn + finding) \<times> event list" where
  "analyze_file_rest w self file fetched t =
     (case fetched of
        Inl e \<Rightarrow> (Inl e, t)
      | Inr c \<Rightarrow>
          (case decode_content c of
             Inl e \<Rightarrow> (Inl e, t)
           | Inr file_content \<Rightarrow>
               analyze_file_content w self file_content (filename file) (patch_or_empty file) t))"

definition analyze_file_resume ::
  "world \<Rightarrow> PRReviewer \<Rightarrow> changed_file \<Rightarrow> exn + contents \<Rightarrow> event list
     \<Rightarrow> (exn + finding) \<times> event list" where
  "analyze_file_resume w self file fetched t =
     (case analyze_file_rest w self file fetched t of
        (Inr r, t1) \<Rightarrow> (Inr r, t1)
      | (Inl e, t1) \<Rightarrow>
          (Inr \<lparr> review_filename = filename file,
                 analysis = Some (''Error analyzing file: '' @ str e),
                 timestamp = utcnow_isoformat w t1 \<rparr>, t1))"

text \<open>
  \<^verbatim>\<open>asyncio.gather\<close> over the tasks of one batch (line 149). All tasks of the batch are
  started, in the order of the batch, and each runs up to its content fetch: the fetches
  of a batch are issued before any of its completion requests. Then the tasks go on as
  their fetches answer. The order in which they answer is not fixed by the code; the model
  resumes them in the order of the batch. The results come in the order of the tasks
  whatever the order in which they finish, and gather returns when all have finished.
\<close>

fun start_tasks ::
  "world \<Rightarrow> repository \<Rightarrow> pull_request \<Rightarrow> changed_file list \<Rightarrow> event list
     \<Rightarrow> (exn + contents) list \<times> event list" where
  "start_tasks w repo pr [] t = ([], t)"
| "start_tasks w repo pr (file # batch) t =
     (case start_tasks w repo pr batch (t @ [GetContents repo (filename file) (pr_head_ref pr)]) of
        (fetched, t1) \<Rightarrow> (get_contents w repo (filename file) (pr_head_ref pr) # fetched, t1))"

fun resume_tasks ::
  "world \<Rightarrow> PRReviewer \<Rightarrow> (changed_file \<times> (exn + contents)) list \<Rightarrow> event list
     \<Rightarrow> (exn + finding) list \<times> event list" where
  "resume_tasks w self [] t = ([], t)"
| "resume_tasks w self ((file, fetched) # tasks) t =
     (case analyze_file_resume w self file fetched t of
        (r, t1) \<Rightarrow>
          (case resume_tasks w self tasks t1 of
             (rs, t2) \<Rightarrow> (r # rs, t2)))"

definition gather ::
  "world \<Rightarrow> PRReviewer \<Rightarrow> repository \<Rightarrow> pull_request \<Rightarrow> changed_file list \<Rightarrow> event list
     \<Rightarrow> (exn + finding) list \<times> event list" where
  "gather w self repo pr batch t =
     (case start_tasks w repo pr batch t of
        (fetched, t1) \<Rightarrow> resume_tasks w self (zip batch fetched) t1)"

text \<open>Line 150: \<^verbatim>\<open>[r for r in batch_reviews if not isinstance(r, Exception)]\<close>.\<close>

fun not_exceptions :: "(exn + 'a) list \<Rightarrow> 'a list" where
  "not_exceptions [] = []"
| "not_exceptions (Inl e # rs) = not_exceptions rs"
| "not_exceptions (Inr r # rs) = r # not_exceptions rs"

text \<open>The loop of lines 146 to 150 over the indices of the range.\<close>

fun batches ::
  "world \<Rightarrow> PRReviewer \<Rightarrow> repository \<Rightarrow> pull_request \<Rightarrow> changed_file list \<Rightarrow> nat list
     \<Rightarrow> finding list \<Rightarrow> event list \<Rightarrow> finding list \<times> event list" where
  "batches w self repo pr fs [] reviews t = (reviews, t)"
| "batches w self repo pr fs (i # is) reviews t =
     (let batch = slice fs i (i + nat (batch_size (config self))) in
      case gather w self repo pr batch t of
        (batch_reviews, t1) \<Rightarrow>
          batches w self repo pr fs is (reviews @ not_exceptions batch_reviews) t1)"

definition analyze_code_changes ::
  "world \<Rightarrow> PRReviewer \<Rightarrow> string \<Rightarrow> int \<Rightarrow> event list \<Rightarrow> (exn + finding list) \<times> event list"
  where
  "analyze_code_changes w self repo_name number t =
     (let t1 = t @ [GetRepo repo_name] in
      case get_repo w repo_name of
        Inl e \<Rightarrow> (Inl e, t1)
      | Inr repo \<Rightarrow>
          (let t2 = t1 @ [GetPull repo number] in
           case get_pull w repo number of
             Inl e \<Rightarrow> (Inl e, t2)
           | Inr pr \<Rightarrow>
               (let t3 = t2 @ [GetFiles pr] in
                case get_files w pr of
                  Inl e \<Rightarrow> (Inl e, t3)
                | Inr all_files \<Rightarrow>
                    (let fs = slice_to all_files (max_files_to_review (config self)) in
                     case range0 (length fs) (batch_size (config self)) of
                       Inl e \<Rightarrow> (Inl e, t3)
                     | Inr idxs \<Rightarrow>
                         (case batches w self repo pr fs idxs [] t3 of
                            (reviews, t4) \<Rightarrow> (Inr reviews, t4))))))"

subsection \<open>post_review and review_pr\<close>

text \<open>Lines 205 to 207: the body grows by one section per review.\<close>

definition review_section :: "finding \<Rightarrow> string" where
  "review_section review =
     ''### '' @ review_filename review @ ''\<newline>'' @ format_opt (analysis review) @
     ''\<newline>\<newline>''"

definition review_body :: "finding list \<Rightarrow> string" where
  "review_body reviews =
     foldl (\<lambda>body review. body @ review_section review)
       ''## AI Code Review Summary\<newline>\<newline>'' reviews"

definition post_review ::
  "world \<Rightarrow> string \<Rightarrow> int \<Rightarrow> finding list \<Rightarrow> event list \<Rightarrow> (exn + unit) \<times> event list" where
  "post_review w repo_name number reviews t =
     (let t1 = t @ [GetRepo repo_name] in
      case get_repo w repo_name of
        Inl e \<Rightarrow> (Inl e, t1)
      | Inr repo \<Rightarrow>
          (let t2 = t1 @ [GetPull repo number] in
           case get_pull w repo number of
             Inl e \<Rightarrow> (Inl e, t2)
           | Inr pr \<Rightarrow>
               (let body = review_body reviews;
                    t3 = t2 @ [CreateReview pr body ''COMMENT'']
                in (create_review w pr body ''COMMENT'', t3))))"

definition review_pr ::
  "world \<Rightarrow> PRReviewer \<Rightarrow> string \<Rightarrow> int \<Rightarrow> event list \<Rightarrow> (exn + unit) \<times> event list" where
  "review_pr w self repo_name number t =
     (case fetch_pr_details w repo_name number t of
        (Inl e, t1) \<Rightarrow> (Inl e, t1)
      | (Inr details, t1) \<Rightarrow>
          (case analyze_code_changes w self repo_name number t1 of
             (Inl e, t2) \<Rightarrow> (Inl e, t2)
           | (Inr reviews, t2) \<Rightarrow> post_review w repo_name number reviews t2))"

subsection \<open>The entry point (run_reviewer.py)\<close>

text \<open>
  \<^verbatim>\<open>async with PRReviewer() as reviewer: await reviewer.review_pr(repo, pr)\<close>. The exit
  method runs whether the body returned or raised; an exception of the exit method is the
  one that leaves the statement, otherwise the outcome of the body does.
\<close>

definition run_reviewer ::
  "world \<Rightarrow> string \<Rightarrow> int \<Rightarrow> event list \<Rightarrow> (exn + unit) \<times> event list" where
  "run_reviewer w repo_name number t =
     (let reviewer = aenter init in
      case review_pr w reviewer repo_name number t of
        (outcome, t1) \<Rightarrow>
          (case aexit w reviewer t1 of
             (Inl e, t2) \<Rightarrow> (Inl e, t2)
           | (Inr _, t2) \<Rightarrow> (outcome, t2)))"

subsection \<open>What a finding says\<close>

text \<open>
  The file name and the analysis text of a finding, without its timestamp: the part of a
  finding that goes into the review body.
\<close>

definition finding_text :: "finding \<Rightarrow> string \<times> string option" where
  "finding_text r = (review_filename r, analysis r)"

subsection \<open>Example worlds\<close>

text \<open>
  Concrete inputs on which the theorems below are exercised: a change request with two
  files, one whose content cannot be fetched and one without an extension.
\<close>

definition pr42 :: pull_request where
  "pr42 = \<lparr> pr_number = 42, pr_title = ''Fix parser'', pr_body = None, pr_base_ref = ''main'',
     pr_head_ref = ''feature'', pr_created_at = ''2024-01-01T00:00:00'',
     pr_updated_at = ''2024-01-02T00:00:00'' \<rparr>"

definition file_a :: changed_file where
  "file_a = \<lparr> filename = ''a.py'', patch = Some ''+x = 1'' \<rparr>"

definition file_m :: changed_file where
  "file_m = \<lparr> filename = ''Makefile'', patch = None \<rparr>"

definition world_ok :: world where
  "world_ok =
     \<lparr> get_repo = (\<lambda>n. Inr (Repository n)),
       get_pull = (\<lambda>r n. Inr pr42),
       get_files = (\<lambda>p. Inr [file_a, file_m]),
       get_contents =
         (\<lambda>r f ref. if f = ''a.py'' then Inl (Exn ''404 Not Found'')
                    else Inr (ContentFile (Inr ''all:''))),
       chat_create = (\<lambda>m msgs temp. Inr (Completion [Some ''Looks good''])),
       create_review = (\<lambda>p b e. Inr ()),
       session_close = Inr (),
       openai_close = Inr (),
       utcnow_isoformat = (\<lambda>t. ''2024-01-03T00:00:00'') \<rparr>"

text \<open>
  Seven changed files under a limit of five files and a batch size of three.
\<close>

definition files7 :: "changed_file list" where
  "files7 =
     [\<lparr> filename = ''f1.py'', patch = Some ''+1'' \<rparr>,
      \<lparr> filename = ''f2.py'', patch = Some ''+2'' \<rparr>,
      \<lparr> filename = ''f3.js'', patch = None \<rparr>,
      \<lparr> filename = ''f4.md'', patch = Some ''+4'' \<rparr>,
      \<lparr> filename = ''f5'', patch = Some ''+5'' \<rparr>,
      \<lparr> filename = ''f6.py'', patch = Some ''+6'' \<rparr>,
      \<lparr> filename = ''f7.py'', patch = Some ''+7'' \<rparr>]"

definition world7 :: world where
  "world7 = world_ok \<lparr> get_files := (\<lambda>p. Inr files7) \<rparr>"

definition reviewer53 :: PRReviewer where
  "reviewer53 =
     aenter init \<lparr> config := default_config \<lparr> max_files_to_review := 5, batch_size := 3 \<rparr> \<rparr>"

subsection \<open>Observations on a trace\<close>

text \<open>
  The calls of the three-step fetch (repository, change request, file list) as far as it
  gets in a world.
\<close>

definition fetch_events :: "world \<Rightarrow> string \<Rightarrow> int \<Rightarrow> event list" where
  "fetch_events w n k =
     (case get_repo w n of
        Inl e \<Rightarrow> [GetRepo n]
      | Inr repo \<Rightarrow>
          (case get_pull w repo k of
             Inl e \<Rightarrow> [GetRepo n, GetPull repo k]
           | Inr pr \<Rightarrow> [GetRepo n, GetPull repo k, GetFiles pr]))"

text \<open>A world whose repository is not found and whose HTTP session fails to close.\<close>

definition world_down :: world where
  "world_down =
     world_ok \<lparr> get_repo := (\<lambda>n. Inl (Exn ''404 Not Found'')),
                session_close := Inl (Exn ''Session is closed'') \<rparr>"

text \<open>The messages of the completion requests of a trace, in order.\<close>

fun request_messages :: "event list \<Rightarrow> message list list" where
  "request_messages [] = []"
| "request_messages (ChatCreate model messages temperature # t) = messages # request_messages t"
| "request_messages (ev # t) = request_messages t"

text \<open>A world in which every fetched object lacks the attribute \<^verbatim>\<open>decoded_content\<close>.\<close>

definition world_empty :: world where
  "world_empty = world_ok \<lparr> get_contents := (\<lambda>r f ref. Inr NoDecodedContent) \<rparr>"

subsection \<open>Hosts that change their answers\<close>

text \<open>
  A world holds the answers of the two services at one moment. During a run a service may
  answer a repeated request differently: a transient failure, a rate limit, a change
  request that changed meanwhile. A host gives, for every history of calls, the world in
  force after that history. The functions of this subsection are the functions above, line
  for line, with every answer taken from the world in force when the call is made; the
  clock is read in the world in force at that moment. For a host that never changes its
  answers they are the functions above (lemmas \<open>review_pr_h_const\<close> and the ones before it).
\<close>

type_synonym host = "event list \<Rightarrow> world"

definition fetch_pr_details_h ::
  "host \<Rightarrow> string \<Rightarrow> int \<Rightarrow> event list \<Rightarrow> (exn + pr_details) \<times> event list" where
  "fetch_pr_details_h h repo_name number t =
     (let t1 = t @ [GetRepo repo_name] in
      case get_repo (h t) repo_name of
        Inl e \<Rightarrow> (Inl e, t1)
      | Inr repo \<Rightarrow>
          (let t2 = t1 @ [GetPull repo number] in
           case get_pull (h t1) repo number of
             Inl e \<Rightarrow> (Inl e, t2)
           | Inr pr \<Rightarrow>
               (let t3 = t2 @ [GetFiles pr] in
                case get_files (h t2) pr of
                  Inl e \<Rightarrow> (Inl e, t3)
                | Inr fs \<Rightarrow>
                    (Inr \<lparr> title = pr_title pr,
                           description = pr_body pr,
                           files = map filename fs,
                           base_branch = pr_base_ref pr,
                           head_branch = pr_head_ref pr,
                           created_at = pr_created_at pr,
                           updated_at = pr_updated_at pr \<rparr>, t3))))"

definition analyze_file_content_h ::
  "host \<Rightarrow> PRReviewer \<Rightarrow> string \<Rightarrow> string \<Rightarrow> string \<Rightarrow> event list
     \<Rightarrow> (exn + finding) \<times> event list" where
  "analyze_file_content_h h self file_content fname ptch t =
     (case build_messages (config self) fname ptch of
        Inl e \<Rightarrow> (Inl e, t)
      | Inr messages \<Rightarrow>
          (case openai_client self of
             None \<Rightarrow> (Inl AttributeError_chat, t)
           | Some _ \<Rightarrow>
               (let model = openai_model (config self);
                    temperature = openai_temperature (config self);
                    t1 = t @ [ChatCreate model messages temperature]
                in case chat_create (h t) model messages temperature of
                     Inl e \<Rightarrow> (Inl e, t1)
                   | Inr response \<Rightarrow>
                       (case choices response of
                          [] \<Rightarrow> (Inl IndexError, t1)
                        | c # _ \<Rightarrow>
                            (Inr \<lparr> review_filename = fname,
                                   analysis = c,
                                   timestamp = utcnow_isoformat (h t1) t1 \<rparr>, t1)))))"

definition analyze_file_rest_h ::
  "host \<Rightarrow> PRReviewer \<Rightarrow> changed_file \<Rightarrow> exn + contents \<Rightarrow> event list
     \<Rightarrow> (exn + finding) \<times> event list" where
  "analyze_file_rest_h h self file fetched t =
     (case fetched of
        Inl e \<Rightarrow> (Inl e, t)
      | Inr c \<Rightarrow>
          (case decode_content c of
             Inl e \<Rightarrow> (Inl e, t)
           | Inr file_content \<Rightarrow>
               analyze_file_content_h h self file_content (filename file) (patch_or_empty file) t))"

definition analyze_file_resume_h ::
  "host \<Rightarrow> PRReviewer \<Rightarrow> changed_file \<Rightarrow> exn + contents \<Rightarrow> event list
     \<Rightarrow> (exn + finding) \<times> event list" where
  "analyze_file_resume_h h self file fetched t =
     (case analyze_file_rest_h h self file fetched t of
        (Inr r, t1) \<Rightarrow> (Inr r, t1)
      | (Inl e, t1) \<Rightarrow>
          (Inr \<lparr> review_filename = filename file,
                 analysis = Some (''Error analyzing file: '' @ str e),
                 timestamp = utcnow_isoformat (h t1) t1 \<rparr>, t1))"

fun start_tasks_h ::
  "host \<Rightarrow> repository \<Rightarrow> pull_request \<Rightarrow> changed_file list \<Rightarrow> event list
     \<Rightarrow> (exn + contents) list \<times> event list" where
  "start_tasks_h h repo pr [] t = ([], t)"
| "start_tasks_h h repo pr (file # batch) t =
     (case start_tasks_h h repo pr batch (t @ [GetContents repo (filename file) (pr_head_ref pr)]) of
        (fetched, t1) \<Rightarrow> (get_contents (h t) repo (filename file) (pr_head_ref pr) # fetched, t1))"

fun resume_tasks_h ::
  "host \<Rightarrow> PRReviewer \<Rightarrow> (changed_file \<times> (exn + contents)) list \<Rightarrow> event list
     \<Rightarrow> (exn + finding) list \<times> event list" where
  "resume_tasks_h h self [] t = ([], t)"
| "resume_tasks_h h self ((file, fetched) # tasks) t =
     (case analyze_file_resume_h h self file fetched t of
        (r, t1) \<Rightarrow>
          (case resume_tasks_h h self tasks t1 of
             (rs, t2) \<Rightarrow> (r # rs, t2)))"

definition gather_h ::
  "host \<Rightarrow> PRReviewer \<Rightarrow> repository \<Rightarrow> pull_request \<Rightarrow> changed_file list \<Rightarrow> event list
     \<Rightarrow> (exn + finding) list \<times> event list" where
  "gather_h h self repo pr batch t =
     (case start_tasks_h h repo pr batch t of
        (fetched, t1) \<Rightarrow> resume_tasks_h h self (zip batch fetched) t1)"

fun batches_h ::
  "host \<Rightarrow> PRReviewer \<Rightarrow> repository \<Rightarrow> pull_request \<Rightarrow> changed_file list \<Rightarrow> nat list
     \<Rightarrow> finding list \<Rightarrow> event list \<Rightarrow> finding list \<times> event list" where
  "batches_h h self repo pr fs [] reviews t = (reviews, t)"
| "batches_h h self repo pr fs (i # is) reviews t =
     (let batch = slice fs i (i + nat (batch_size (config self))) in
      case gather_h h self repo pr batch t of
        (batch_reviews, t1) \<Rightarrow>
          batches_h h self repo pr fs is (reviews @ not_exceptions batch_reviews) t1)"

definition analyze_code_changes_h ::
  "host \<Rightarrow> PRReviewer \<Rightarrow> string \<Rightarrow> int \<Rightarrow> event list \<Rightarrow> (exn + finding list) \<times> event list"
  where
  "analyze_code_changes_h h self repo_name number t =
     (let t1 = t @ [GetRepo repo_name] in
      case get_repo (h t) repo_name of
        Inl e \<Rightarrow> (Inl e, t1)
      | Inr repo \<Rightarrow>
          (let t2 = t1 @ [GetPull repo number] in
           case get_pull (h t1) repo number of
             Inl e \<Rightarrow> (Inl e, t2)
           | Inr pr \<Rightarrow>
               (let t3 = t2 @ [GetFiles pr] in
                case get_files (h t2) pr of
                  Inl e \<Rightarrow> (Inl e, t3)
                | Inr all_files \<Rightarrow>
                    (let fs = slice_to all_files (max_files_to_review (config self)) in
                     case range0 (length fs) (batch_size (config self)) of
                       Inl e \<Rightarrow> (Inl e, t3)
                     | Inr idxs \<Rightarrow>
                         (case batches_h h self repo pr fs idxs [] t3 of
                            (reviews, t4) \<Rightarrow> (Inr reviews, t4))))))"

definition post_review_h ::
  "host \<Rightarrow> string \<Rightarrow> int \<Rightarrow> finding list \<Rightarrow> event list \<Rightarrow> (exn + unit) \<times> event list" where
  "post_review_h h repo_name number reviews t =
     (let t1 = t @ [GetRepo repo_name] in
      case get_repo (h t) repo_name of
        Inl e \<Rightarrow> (Inl e, t1)
      | Inr repo \<Rightarrow>
          (let t2 = t1 @ [GetPull repo number] in
           case get_pull (h t1) repo number of
             Inl e \<Rightarrow> (Inl e, t2)
           | Inr pr \<Rightarrow>
               (let body = review_body reviews;
                    t3 = t2 @ [CreateReview pr body ''COMMENT'']
                in (create_review (h t2) pr body ''COMMENT'', t3))))"

definition review_pr_h ::
  "host \<Rightarrow> PRReviewer \<Rightarrow> string \<Rightarrow> int \<Rightarrow> event list \<Rightarrow> (exn + unit) \<times> event list" where
  "review_pr_h h self repo_name number t =
     (case fetch_pr_details_h h repo_name number t of
        (Inl e, t1) \<Rightarrow> (Inl e, t1)
      | (Inr details, t1) \<Rightarrow>
          (case analyze_code_changes_h h self repo_name number t1 of
             (Inl e, t2) \<Rightarrow> (Inl e, t2)
           | (Inr reviews, t2) \<Rightarrow> post_review_h h repo_name number reviews t2))"

text \<open>
  The create_review calls among the calls \<open>es\<close> made after the history \<open>t\<close> that
  returned: the reviews that are posted.
\<close>

fun posted_reviews :: "host \<Rightarrow> event list \<Rightarrow> event list \<Rightarrow> event list" where
  "posted_reviews h t [] = []"
| "posted_reviews h t (CreateReview pr body kind # es) =
     (if create_review (h t) pr body kind = Inr () then [CreateReview pr body kind] else []) @
     posted_reviews h (t @ [CreateReview pr body kind]) es"
| "posted_reviews h t (ev # es) = posted_reviews h (t @ [ev]) es"

text \<open>
  A host that answers like the example world until the repository has been fetched twice
  and then fails every fetch of the repository.
\<close>

definition host_flaky :: host where
  "host_flaky t =
     (if length (filter is_GetRepo t) < 2 then world_ok
      else world_ok \<lparr> get_repo := (\<lambda>n. Inl (Exn ''502 Bad Gateway'')) \<rparr>)"

text \<open>The trace \<open>t'\<close> continues the trace \<open>t\<close> without a create_review call.\<close>

definition adds_no_review :: "event list \<Rightarrow> event list \<Rightarrow> bool" where
  "adds_no_review t t' =
     (take (length t) t' = t \<and> filter is_CreateReview (drop (length t) t') = [])"

section \<open>Properties\<close>

declare range_from.simps [simp del]

subsection \<open>The extension and the messages are always defined\<close>

lemma split_acc_nonempty: "split_acc sep cur s \<noteq> []"
  by (induction s arbitrary: cur) auto

lemma file_ext_of_total: "file_ext_of fname = Inr (lower (last (str_split fname (CHR ''.''))))"
  using split_acc_nonempty [of "CHR ''.''" "[]" fname]
  by (simp add: file_ext_of_def index_last_def str_split_def split: list.splits)

lemma build_messages_total:
  "build_messages cfg fname ptch =
     Inr [Message ''system'' system_prompt,
          Message ''user'' (prompt_text fname (lower (last (str_split fname (CHR ''.''))))
             (dict_get (language_specific_rules cfg) (lower (last (str_split fname (CHR ''.'')))))
             ptch)]"
  by (simp add: build_messages_def file_ext_of_total)

lemma analyze_file_content_shift:
  "snd (analyze_file_content w self c fname p t) = t @ snd (analyze_file_content w self c fname p [])"
  by (simp add: analyze_file_content_def Let_def split: sum.splits option.splits list.splits)

lemma analyze_file_content_text:
  "map_sum (\<lambda>e. e) finding_text (fst (analyze_file_content w self c fname p t)) =
   map_sum (\<lambda>e. e) finding_text (fst (analyze_file_content w self c fname p []))"
  by (simp add: analyze_file_content_def Let_def finding_text_def split: sum.splits option.splits list.splits)


lemma analyze_file_try_shift:
  "snd (analyze_file_try w self repo pr file t) = t @ snd (analyze_file_try w self repo pr file [])"
  using analyze_file_content_shift [of w self _ "filename file" "patch_or_empty file" "t @ [GetContents repo (filename file) (pr_head_ref pr)]"]
   analyze_file_content_shift [of w self _ "filename file" "patch_or_empty file" "[GetContents repo (filename file) (pr_head_ref pr)]"]
  by (simp add: analyze_file_try_def Let_def split: sum.splits)

lemma analyze_file_try_text:
  "map_sum (\<lambda>e. e) finding_text (fst (analyze_file_try w self repo pr file t)) =
   map_sum (\<lambda>e. e) finding_text (fst (analyze_file_try w self repo pr file []))"
  using analyze_file_content_text [of w self _ "filename file" "patch_or_empty file" "t @ [GetContents repo (filename file) (pr_head_ref pr)]"]
   analyze_file_content_text [of w self _ "filename file" "patch_or_empty file" "[GetContents repo (filename file) (pr_head_ref pr)]"]
  by (simp add: analyze_file_try_def Let_def split: sum.splits)



lemma analyze_file_shift:
  "snd (analyze_file w self repo pr f t) = t @ snd (analyze_file w self repo pr f [])"
  using analyze_file_try_shift [of w self repo pr f t]
  by (auto simp add: analyze_file_def split: prod.splits sum.splits)


lemma analyze_file_text:
  "map_sum (\<lambda>e. e) finding_text (fst (analyze_file w self repo pr f t)) =
   map_sum (\<lambda>e. e) finding_text (fst (analyze_file w self repo pr f []))"
  using analyze_file_try_text [of w self repo pr f t]
  by (auto simp add: analyze_file_def finding_text_def split: prod.splits sum.splits)

text \<open>The method is its first step followed by its resumption.\<close>

lemma analyze_file_split:
  "analyze_file w self repo pr f t =
     analyze_file_resume w self f (get_contents w repo (filename f) (pr_head_ref pr))
       (t @ [GetContents repo (filename f) (pr_head_ref pr)])"
  by (simp add: analyze_file_def analyze_file_try_def analyze_file_resume_def
        analyze_file_rest_def Let_def split: sum.splits)

lemma analyze_file_resume_shift:
  "snd (analyze_file_resume w self f c t) = t @ snd (analyze_file_resume w self f c [])"
  by (simp add: analyze_file_resume_def analyze_file_rest_def analyze_file_content_def Let_def
        split: sum.splits option.splits list.splits)

lemma analyze_file_resume_text:
  "map_sum (\<lambda>e. e) finding_text (fst (analyze_file_resume w self f c t)) =
   map_sum (\<lambda>e. e) finding_text (fst (analyze_file_resume w self f c t'))"
  by (simp add: analyze_file_resume_def analyze_file_rest_def analyze_file_content_def Let_def
        finding_text_def split: sum.splits option.splits list.splits)

lemma analyze_file_resume_Inr: "\<exists>r. fst (analyze_file_resume w self f c t) = Inr r"
  by (auto simp add: analyze_file_resume_def split: prod.splits sum.splits)

text \<open>The calls of a resumed task are its completion request, if it gets that far.\<close>

lemma analyze_file_resume_calls:
  "filter is_ChatCreate (snd (analyze_file_resume w self f c [])) =
   snd (analyze_file_resume w self f c [])"
  by (auto simp add: analyze_file_resume_def analyze_file_rest_def analyze_file_content_def
        Let_def split: prod.splits sum.splits option.splits list.splits)

lemma analyze_file_calls:
  "snd (analyze_file_resume w self f (get_contents w repo (filename f) (pr_head_ref pr)) []) =
   filter is_ChatCreate (snd (analyze_file w self repo pr f []))"
proof -
  let ?c = "get_contents w repo (filename f) (pr_head_ref pr)"
  let ?g = "GetContents repo (filename f) (pr_head_ref pr)"
  have "snd (analyze_file w self repo pr f []) = [?g] @ snd (analyze_file_resume w self f ?c [])"
    using analyze_file_resume_shift [of w self f ?c "[?g]"] by (simp add: analyze_file_split)
  then show ?thesis
    by (simp add: analyze_file_resume_calls)
qed

lemma start_tasks_eq:
  "start_tasks w repo pr batch t =
     (map (\<lambda>f. get_contents w repo (filename f) (pr_head_ref pr)) batch,
      t @ map (\<lambda>f. GetContents repo (filename f) (pr_head_ref pr)) batch)"
  by (induction batch arbitrary: t) simp_all

lemma fst_resume_tasks_Cons:
  "fst (resume_tasks w self ((f, c) # tasks) t) =
     fst (analyze_file_resume w self f c t) #
     fst (resume_tasks w self tasks (snd (analyze_file_resume w self f c t)))"
  by (simp split: prod.splits)

lemma snd_resume_tasks_Cons:
  "snd (resume_tasks w self ((f, c) # tasks) t) =
     snd (resume_tasks w self tasks (snd (analyze_file_resume w self f c t)))"
  by (simp split: prod.splits)

lemma resume_tasks_shift:
  "snd (resume_tasks w self tasks t) = t @ snd (resume_tasks w self tasks [])"
proof (induction tasks arbitrary: t)
  case Nil
  then show ?case by simp
next
  case (Cons p tasks)
  obtain f c where p: "p = (f, c)" by (cases p)
  show ?case
    using Cons.IH [of "snd (analyze_file_resume w self f c t)"]
      Cons.IH [of "snd (analyze_file_resume w self f c [])"]
      analyze_file_resume_shift [of w self f c t]
    by (simp add: p snd_resume_tasks_Cons del: resume_tasks.simps)
qed

lemma resume_tasks_calls:
  "snd (resume_tasks w self tasks []) =
   concat (map (\<lambda>(f, c). snd (analyze_file_resume w self f c [])) tasks)"
proof (induction tasks)
  case Nil
  then show ?case by simp
next
  case (Cons p tasks)
  obtain f c where p: "p = (f, c)" by (cases p)
  show ?case
    using Cons.IH resume_tasks_shift [of w self tasks "snd (analyze_file_resume w self f c [])"]
    by (simp add: p snd_resume_tasks_Cons del: resume_tasks.simps)
qed

lemma resume_tasks_not_exceptions:
  "map Inr (not_exceptions (fst (resume_tasks w self tasks t))) =
   fst (resume_tasks w self tasks t)"
proof (induction tasks arbitrary: t)
  case Nil
  then show ?case by simp
next
  case (Cons p tasks)
  obtain f c where p: "p = (f, c)" by (cases p)
  obtain r where r: "fst (analyze_file_resume w self f c t) = Inr r"
    using analyze_file_resume_Inr by blast
  show ?case
    using r Cons.IH [of "snd (analyze_file_resume w self f c t)"]
    by (simp add: p fst_resume_tasks_Cons del: resume_tasks.simps)
qed

lemma resume_tasks_text:
  "map (map_sum (\<lambda>e. e) finding_text) (fst (resume_tasks w self tasks t)) =
   map (\<lambda>(f, c). map_sum (\<lambda>e. e) finding_text (fst (analyze_file_resume w self f c []))) tasks"
proof (induction tasks arbitrary: t)
  case Nil
  then show ?case by simp
next
  case (Cons p tasks)
  obtain f c where p: "p = (f, c)" by (cases p)
  show ?case
    using Cons.IH [of "snd (analyze_file_resume w self f c t)"]
      analyze_file_resume_text [of w self f c t "[]"]
    by (simp add: p fst_resume_tasks_Cons del: resume_tasks.simps)
qed

lemma gather_eq:
  "gather w self repo pr batch t =
     resume_tasks w self
       (map (\<lambda>f. (f, get_contents w repo (filename f) (pr_head_ref pr))) batch)
       (t @ map (\<lambda>f. GetContents repo (filename f) (pr_head_ref pr)) batch)"
  by (simp add: gather_def start_tasks_eq zip_map2 zip_same_conv_map comp_def)

text \<open>
  The calls of one gather: the content fetches of the batch, then the completion requests
  of the batch.
\<close>

lemma gather_calls:
  "snd (gather w self repo pr batch t) =
     t @ map (\<lambda>f. GetContents repo (filename f) (pr_head_ref pr)) batch @
     concat (map (\<lambda>f. filter is_ChatCreate (snd (analyze_file w self repo pr f []))) batch)"
proof -
  let ?tasks = "map (\<lambda>f. (f, get_contents w repo (filename f) (pr_head_ref pr))) batch"
  have "snd (resume_tasks w self ?tasks []) =
        concat (map (\<lambda>f. filter is_ChatCreate (snd (analyze_file w self repo pr f []))) batch)"
    by (simp add: resume_tasks_calls comp_def analyze_file_calls)
  then show ?thesis
    using resume_tasks_shift [of w self ?tasks
        "t @ map (\<lambda>f. GetContents repo (filename f) (pr_head_ref pr)) batch"]
    by (simp add: gather_eq)
qed

lemma gather_shift:
  "snd (gather w self repo pr batch t) = t @ snd (gather w self repo pr batch [])"
  by (simp add: gather_calls)

lemma gather_not_exceptions:
  "map Inr (not_exceptions (fst (gather w self repo pr batch t))) = fst (gather w self repo pr batch t)"
  by (simp only: gather_eq resume_tasks_not_exceptions)

lemma gather_text:
  "map (map_sum (\<lambda>e. e) finding_text) (fst (gather w self repo pr batch t)) =
   map (\<lambda>f. map_sum (\<lambda>e. e) finding_text (fst (analyze_file w self repo pr f []))) batch"
proof -
  have "map_sum (\<lambda>e. e) finding_text
          (fst (analyze_file_resume w self f (get_contents w repo (filename f) (pr_head_ref pr)) [])) =
        map_sum (\<lambda>e. e) finding_text (fst (analyze_file w self repo pr f []))" for f
    using analyze_file_resume_text [of w self f _ "[]"
        "[] @ [GetContents repo (filename f) (pr_head_ref pr)]"]
    by (simp only: analyze_file_split)
  then show ?thesis
    by (simp add: gather_eq resume_tasks_text comp_def)
qed

lemma fst_batches_Cons:
  "fst (batches w self repo pr fs (i # is) reviews t) =
     fst (batches w self repo pr fs is
       (reviews @ not_exceptions (fst (gather w self repo pr (slice fs i (i + nat (batch_size (config self)))) t)))
       (snd (gather w self repo pr (slice fs i (i + nat (batch_size (config self)))) t)))"
  by (simp add: Let_def split: prod.splits)

lemma snd_batches_Cons:
  "snd (batches w self repo pr fs (i # is) reviews t) =
     snd (batches w self repo pr fs is
       (reviews @ not_exceptions (fst (gather w self repo pr (slice fs i (i + nat (batch_size (config self)))) t)))
       (snd (gather w self repo pr (slice fs i (i + nat (batch_size (config self)))) t)))"
  by (simp add: Let_def split: prod.splits)

lemma not_exceptions_text:
  "map (\<lambda>r. Inr (finding_text r)) (not_exceptions (fst (gather w self repo pr batch t))) =
   map (\<lambda>f. map_sum (\<lambda>e. e) finding_text (fst (analyze_file w self repo pr f []))) batch"
proof -
  have "map (\<lambda>r. Inr (finding_text r)) (not_exceptions (fst (gather w self repo pr batch t))) =
        map (map_sum (\<lambda>e. e) finding_text) (map Inr (not_exceptions (fst (gather w self repo pr batch t))))"
    by simp
  also have "\<dots> = map (map_sum (\<lambda>e. e) finding_text) (fst (gather w self repo pr batch t))"
    by (simp only: gather_not_exceptions)
  finally show ?thesis
    by (simp only: gather_text)
qed

lemma batches_text:
  "map (\<lambda>r. Inr (finding_text r)) (fst (batches w self repo pr fs idxs reviews t)) =
   map (\<lambda>r. Inr (finding_text r)) reviews @
   map (\<lambda>f. map_sum (\<lambda>e. e) finding_text (fst (analyze_file w self repo pr f [])))
     (concat (map (\<lambda>i. slice fs i (i + nat (batch_size (config self)))) idxs))"
proof (induction idxs arbitrary: reviews t)
  case Nil
  then show ?case by simp
next
  case (Cons i idxs)
  show ?case
    by (simp add: fst_batches_Cons Cons.IH not_exceptions_text del: batches.simps)
qed

lemma batches_shift:
  "snd (batches w self repo pr fs idxs reviews t) =
   t @ snd (batches w self repo pr fs idxs reviews' [])"
proof (induction idxs arbitrary: reviews reviews' t)
  case Nil
  then show ?case by simp
next
  case (Cons i idxs)
  let ?b = "slice fs i (i + nat (batch_size (config self)))"
  let ?g = "\<lambda>t. gather w self repo pr ?b t"
  have "snd (batches w self repo pr fs (i # idxs) reviews t) =
        snd (?g t) @ snd (batches w self repo pr fs idxs [] [])"
    by (simp only: snd_batches_Cons Cons.IH [of _ "snd (?g t)" "[]"])
  also have "\<dots> = t @ snd (?g []) @ snd (batches w self repo pr fs idxs [] [])"
    using gather_shift [of w self repo pr ?b t] by simp
  also have "snd (?g []) @ snd (batches w self repo pr fs idxs [] []) =
        snd (batches w self repo pr fs (i # idxs) reviews' [])"
    by (simp only: snd_batches_Cons Cons.IH [of _ "snd (?g [])" "[]"])
  finally show ?case .
qed

lemma concat_slices:
  "0 < B \<Longrightarrow> concat (map (\<lambda>k. slice fs k (k + B)) (range_from i (length fs) B)) = drop i fs"
proof (induction i "length fs" B rule: range_from.induct)
  case (1 i step)
  show ?case
  proof (cases "i < length fs")
    case True
    have "drop i fs = take step (drop i fs) @ drop (i + step) fs"
      by (metis append_take_drop_id drop_drop add.commute)
    with True 1 show ?thesis
      by (subst range_from.simps) (simp add: slice_def)
  next
    case False
    then show ?thesis
      by (subst range_from.simps) simp
  qed
qed

subsection \<open>The indices of the range\<close>




subsection \<open>The language key\<close>

lemma split_acc_no_sep: "sep \<notin> set s \<Longrightarrow> split_acc sep cur s = [cur @ s]"
  by (induction s arbitrary: cur) auto

lemma last_split_acc:
  "last (split_acc sep cur (p @ sep # s)) = last (split_acc sep [] s)"
  by (induction p arbitrary: cur) (auto simp: split_acc_nonempty)

text \<open>
  For a path with a dot the key is the lower-cased text after the last dot. For a path
  without a dot it is the whole path, lower-cased. The lookup of the rules is total.
\<close>

lemma file_ext_of_dot:
  "CHR ''.'' \<notin> set s \<Longrightarrow> file_ext_of (p @ ''.'' @ s) = Inr (lower s)"
  by (simp add: file_ext_of_total str_split_def last_split_acc split_acc_no_sep)

lemma file_ext_of_no_dot:
  "CHR ''.'' \<notin> set s \<Longrightarrow> file_ext_of s = Inr (lower s)"
  by (simp add: file_ext_of_total str_split_def split_acc_no_sep)

text \<open>
  Claim C6. The language key of a path is the lower-cased suffix after its last dot, and the
  empty string when the path has no dot; the rule lookup gives the empty sequence for an
  unknown key and never fails. On the path \<^verbatim>\<open>Makefile\<close>, which has no dot, line 160
  computes the key \<^verbatim>\<open>makefile\<close>, not the empty string.
\<close>

theorem file_ext_of_Makefile:
  "file_ext_of ''Makefile'' = Inr ''makefile'' \<and> file_ext_of ''Makefile'' \<noteq> Inr ''''"
  by code_simp

subsection \<open>The review body\<close>

lemma foldl_append_concat: "foldl (\<lambda>b r. b @ f r) a xs = a @ concat (map f xs)"
  by (induction xs arbitrary: a) simp_all

lemma review_body_eq:
  "review_body reviews =
     ''## AI Code Review Summary\<newline>\<newline>'' @
     concat (map (\<lambda>review. ''### '' @ review_filename review @ ''\<newline>'' @
                     format_opt (analysis review) @ ''\<newline>\<newline>'') reviews)"
  unfolding review_body_def review_section_def by (rule foldl_append_concat)

text \<open>
  Claim C4. For every list of findings, the empty one included, the body that post_review
  publishes is the header \<^verbatim>\<open>## AI Code Review Summary\<close> and two newlines, followed by one
  section per finding in the order of the list: \<^verbatim>\<open>### \<close>, the file name, a newline, the
  analysis, two newlines; nothing else. The body is the argument of the one create_review
  call, made with the event kind \<^verbatim>\<open>COMMENT\<close>, once the repository and the change request
  have been fetched.
\<close>

theorem post_review_publishes_body:
  assumes "get_repo w repo_name = Inr repo" and "get_pull w repo number = Inr pr"
  shows "post_review w repo_name number reviews t =
     (create_review w pr
        (''## AI Code Review Summary\<newline>\<newline>'' @
         concat (map (\<lambda>review. ''### '' @ review_filename review @ ''\<newline>'' @
                     format_opt (analysis review) @ ''\<newline>\<newline>'') reviews))
        ''COMMENT'',
      t @ [GetRepo repo_name, GetPull repo number,
           CreateReview pr
             (''## AI Code Review Summary\<newline>\<newline>'' @
              concat (map (\<lambda>review. ''### '' @ review_filename review @ ''\<newline>'' @
                     format_opt (analysis review) @ ''\<newline>\<newline>'') reviews))
             ''COMMENT''])"
  using assms by (simp add: post_review_def Let_def review_body_eq)

theorem post_review_publishes_body_witness:
  "post_review world_ok ''org/repo'' 42
     [\<lparr> review_filename = ''a.py'', analysis = Some ''fine'', timestamp = ''t1'' \<rparr>,
      \<lparr> review_filename = ''b.js'', analysis = None, timestamp = ''t2'' \<rparr>] [] =
   (Inr (),
    [GetRepo ''org/repo'', GetPull (Repository ''org/repo'') 42,
     CreateReview pr42
       ''## AI Code Review Summary\<newline>\<newline>### a.py\<newline>fine\<newline>\<newline>### b.js\<newline>None\<newline>\<newline>''
       ''COMMENT''])"
  using post_review_publishes_body [of world_ok "''org/repo''" "Repository ''org/repo''" 42 pr42
      "[\<lparr> review_filename = ''a.py'', analysis = Some ''fine'', timestamp = ''t1'' \<rparr>,
        \<lparr> review_filename = ''b.js'', analysis = None, timestamp = ''t2'' \<rparr>]" "[]"]
  by (simp add: world_ok_def format_opt_def)

subsection \<open>The run of analyze_code_changes\<close>


lemma analyze_code_changes_run:
  assumes "0 \<le> max_files_to_review (config self)" and "1 \<le> batch_size (config self)"
    and "get_repo w n = Inr repo" and "get_pull w repo k = Inr pr"
    and "get_files w pr = Inr all_files"
  shows "analyze_code_changes w self n k t =
     (Inr (fst (batches w self repo pr (slice_to all_files (max_files_to_review (config self)))
                 (range_from 0 (length (slice_to all_files (max_files_to_review (config self))))
                    (nat (batch_size (config self))))
                 [] (t @ [GetRepo n, GetPull repo k, GetFiles pr]))),
      snd (batches w self repo pr (slice_to all_files (max_files_to_review (config self)))
                 (range_from 0 (length (slice_to all_files (max_files_to_review (config self))))
                    (nat (batch_size (config self))))
                 [] (t @ [GetRepo n, GetPull repo k, GetFiles pr])))"
  using assms by (simp add: analyze_code_changes_def Let_def range0_def split: prod.splits)

lemma batches_range_text:
  assumes "0 < nat (batch_size (config self))"
  shows "map (\<lambda>r. Inr (finding_text r))
       (fst (batches w self repo pr fs (range_from 0 (length fs) (nat (batch_size (config self)))) [] t)) =
     map (\<lambda>f. map_sum (\<lambda>e. e) finding_text (fst (analyze_file w self repo pr f []))) fs"
  using concat_slices [OF assms, of fs 0] by (simp add: batches_text)

lemma events_analyze_file_content:
  assumes "\<And>a b c. \<not> P (ChatCreate a b c)"
  shows "filter P (snd (analyze_file_content w self s fname p [])) = []"
  using assms
  by (simp add: analyze_file_content_def Let_def split: sum.splits option.splits list.splits)

lemma events_analyze_file:
  assumes "\<And>a b c. \<not> P (ChatCreate a b c)"
  shows "filter P (snd (analyze_file w self repo pr f [])) =
         filter P [GetContents repo (filename f) (pr_head_ref pr)]"
proof -
  have "snd (analyze_file w self repo pr f []) = snd (analyze_file_try w self repo pr f [])"
    by (auto simp add: analyze_file_def split: prod.splits sum.splits)
  moreover have "filter P (snd (analyze_file_try w self repo pr f [])) =
         filter P [GetContents repo (filename f) (pr_head_ref pr)]"
    using analyze_file_content_shift [of w self _ "filename f" "patch_or_empty f"
        "[GetContents repo (filename f) (pr_head_ref pr)]"]
      events_analyze_file_content [of P w self _ "filename f" "patch_or_empty f", OF assms]
    by (simp add: analyze_file_try_def Let_def split: sum.splits)
  ultimately show ?thesis by simp
qed

lemma filter_no_chat:
  assumes "\<And>a b c. \<not> P (ChatCreate a b c)"
  shows "filter P (filter is_ChatCreate es) = []"
proof (induction es)
  case Nil
  then show ?case by simp
next
  case (Cons ev es)
  then show ?case
    using assms by (cases ev) simp_all
qed

lemma events_gather:
  assumes "\<And>a b c. \<not> P (ChatCreate a b c)"
  shows "filter P (snd (gather w self repo pr batch [])) =
         filter P (map (\<lambda>f. GetContents repo (filename f) (pr_head_ref pr)) batch)"
proof -
  have "filter P (concat (map (\<lambda>f. filter is_ChatCreate (snd (analyze_file w self repo pr f [])))
          batch)) = []"
    by (induction batch) (simp_all add: filter_no_chat [of P, OF assms] del: filter_filter)
  then show ?thesis
    by (simp add: gather_calls)
qed

lemma events_batches:
  assumes "\<And>a b c. \<not> P (ChatCreate a b c)"
  shows "filter P (snd (batches w self repo pr fs idxs reviews [])) =
         filter P (map (\<lambda>f. GetContents repo (filename f) (pr_head_ref pr))
           (concat (map (\<lambda>i. slice fs i (i + nat (batch_size (config self)))) idxs)))"
proof (induction idxs arbitrary: reviews)
  case Nil
  then show ?case by simp
next
  case (Cons i idxs)
  let ?b = "slice fs i (i + nat (batch_size (config self)))"
  have "snd (batches w self repo pr fs (i # idxs) reviews []) =
        snd (gather w self repo pr ?b []) @ snd (batches w self repo pr fs idxs [] [])"
    using batches_shift [of w self repo pr fs idxs _ "snd (gather w self repo pr ?b [])" "[]"]
    by (simp only: snd_batches_Cons)
  then show ?case
    using Cons.IH [of "[]"] events_gather [of P w self repo pr ?b, OF assms] by simp
qed


lemma length_slice_to:
  "0 \<le> m \<Longrightarrow> int (length (slice_to xs m)) = min (int (length xs)) m"
  by (simp add: slice_to_def)

text \<open>
  Claim C1. For every run of analyze_code_changes on a change request whose repository,
  metadata and file list are fetched, with a list of L changed files, the call returns, and
  the list of findings it returns has exactly min(L, max_files_to_review) entries, whatever
  the content fetches and completion requests of the single files answer. One content
  fetch is made per finding: every attempted file gives a finding. The configuration
  satisfies its invariant (a batch size of at least 1, a file limit of at least 0).
\<close>

theorem findings_count:
  assumes "0 \<le> max_files_to_review (config self)" and "1 \<le> batch_size (config self)"
    and "get_repo w n = Inr repo" and "get_pull w repo k = Inr pr"
    and "get_files w pr = Inr all_files"
  shows "\<exists>reviews t'.
     analyze_code_changes w self n k t = (Inr reviews, t') \<and>
     int (length reviews) = min (int (length all_files)) (max_files_to_review (config self)) \<and>
     length (filter is_GetContents (drop (length t) t')) = length reviews"
proof -
  let ?fs = "slice_to all_files (max_files_to_review (config self))"
  let ?B = "nat (batch_size (config self))"
  let ?t3 = "t @ [GetRepo n, GetPull repo k, GetFiles pr]"
  let ?run = "batches w self repo pr ?fs (range_from 0 (length ?fs) ?B) []"
  have B: "0 < ?B" using assms(2) by simp
  have run: "analyze_code_changes w self n k t = (Inr (fst (?run ?t3)), snd (?run ?t3))"
    using assms by (rule analyze_code_changes_run)
  have "length (map (\<lambda>r. Inr (finding_text r) :: exn + string \<times> string option) (fst (?run ?t3))) =
        length (map (\<lambda>f. map_sum (\<lambda>e. e) finding_text (fst (analyze_file w self repo pr f []))) ?fs)"
    by (simp only: batches_range_text [OF B])
  then have len: "length (fst (?run ?t3)) = length ?fs"
    by simp
  have "snd (?run ?t3) = ?t3 @ snd (?run [])"
    by (rule batches_shift)
  then have "drop (length t) (snd (?run ?t3)) = [GetRepo n, GetPull repo k, GetFiles pr] @ snd (?run [])"
    by simp
  moreover have "filter is_GetContents (snd (?run [])) =
      filter is_GetContents (map (\<lambda>f. GetContents repo (filename f) (pr_head_ref pr)) ?fs)"
    using concat_slices [OF B, of ?fs 0] by (simp add: events_batches)
  ultimately have "length (filter is_GetContents (drop (length t) (snd (?run ?t3)))) = length ?fs"
    by simp
  with run len length_slice_to [OF assms(1), of all_files] show ?thesis
    by simp
qed

theorem findings_count_witness:
  "\<exists>reviews t'.
     analyze_code_changes world_ok (aenter init) ''org/repo'' 42 [] = (Inr reviews, t') \<and>
     length reviews = 2 \<and> length (filter is_GetContents t') = 2"
  using findings_count [of "aenter init" world_ok "''org/repo''" "Repository ''org/repo''" 42 pr42
      "[file_a, file_m]" "[]"]
  by (auto simp add: world_ok_def aenter_def init_def default_config_def)

subsection \<open>Batches\<close>









subsection \<open>A failing file\<close>

lemma analyze_file_try_fails:
  assumes "get_contents w repo (filename F) (pr_head_ref pr) = Inl e \<or>
     (\<exists>c. get_contents w repo (filename F) (pr_head_ref pr) = Inr c \<and> decode_content c = Inl e) \<or>
     (\<exists>c s msgs h. get_contents w repo (filename F) (pr_head_ref pr) = Inr c \<and>
        decode_content c = Inr s \<and> openai_client self = Some h \<and>
        build_messages (config self) (filename F) (patch_or_empty F) = Inr msgs \<and>
        chat_create w (openai_model (config self)) msgs (openai_temperature (config self)) = Inl e)"
  shows "fst (analyze_file_try w self repo pr F t) = Inl e"
  using assms
  by (auto simp add: analyze_file_try_def analyze_file_content_def Let_def)

lemma analyze_file_error_finding:
  assumes "fst (analyze_file_try w self repo pr F t) = Inl e"
  shows "map_sum (\<lambda>e. e) finding_text (fst (analyze_file w self repo pr F t)) =
         Inr (filename F, Some (''Error analyzing file: '' @ str e))"
  using assms by (auto simp add: analyze_file_def finding_text_def split: prod.splits sum.splits)

lemma fetch_pr_details_ok:
  assumes "get_repo w n = Inr repo" and "get_pull w repo k = Inr pr"
    and "get_files w pr = Inr all_files"
  shows "\<exists>details. fetch_pr_details w n k t =
           (Inr details, t @ [GetRepo n, GetPull repo k, GetFiles pr])"
  using assms by (simp add: fetch_pr_details_def Let_def)

lemma post_review_ok:
  assumes "get_repo w n = Inr repo" and "get_pull w repo k = Inr pr"
  shows "post_review w n k reviews t =
     (create_review w pr (review_body reviews) ''COMMENT'',
      t @ [GetRepo n, GetPull repo k, CreateReview pr (review_body reviews) ''COMMENT''])"
  using assms by (simp add: post_review_def Let_def)

text \<open>
  The text of a finding depends on the world only through the answers to the requests of
  its own file: two worlds that answer these alike give the same text, whatever they answer
  for other files and whatever was called before.
\<close>

lemma analyze_file_text_cong:
  assumes "get_contents w1 repo (filename f) (pr_head_ref pr) =
           get_contents w2 repo (filename f) (pr_head_ref pr)"
    and "chat_create w1 = chat_create w2"
  shows "map_sum (\<lambda>e. e) finding_text (fst (analyze_file w1 self repo pr f t1)) =
         map_sum (\<lambda>e. e) finding_text (fst (analyze_file w2 self repo pr f t2))"
  using assms
  by (auto simp add: analyze_file_def analyze_file_try_def analyze_file_content_def Let_def
        finding_text_def split: prod.splits sum.splits option.splits list.splits)

text \<open>
  Claim C2. For every file F of the truncated list: if fetching its content raises, or
  decoding it raises, or the completion request for it raises, the per-file task does not
  propagate the exception but gives a finding for F whose analysis is the error
  description \<^verbatim>\<open>Error analyzing file: \<close> followed by the message. The run goes on:
  analyze_code_changes returns a finding for every file, each finding has (in file name and
  analysis) exactly the value that the task of its own file gives when run alone, so the
  findings of the other files are not affected, and review_pr goes on to the create_review
  call with the body built from these findings. The configuration satisfies its invariant
  and the repository, the change request and the file list are fetched.
\<close>

theorem file_failure_is_isolated:
  assumes "0 \<le> max_files_to_review (config self)" and "1 \<le> batch_size (config self)"
    and "get_repo w n = Inr repo" and "get_pull w repo k = Inr pr"
    and "get_files w pr = Inr all_files"
    and "i < length (slice_to all_files (max_files_to_review (config self)))"
    and "slice_to all_files (max_files_to_review (config self)) ! i = F"
    and "get_contents w repo (filename F) (pr_head_ref pr) = Inl e \<or>
     (\<exists>c. get_contents w repo (filename F) (pr_head_ref pr) = Inr c \<and> decode_content c = Inl e) \<or>
     (\<exists>c s msgs h. get_contents w repo (filename F) (pr_head_ref pr) = Inr c \<and>
        decode_content c = Inr s \<and> openai_client self = Some h \<and>
        build_messages (config self) (filename F) (patch_or_empty F) = Inr msgs \<and>
        chat_create w (openai_model (config self)) msgs (openai_temperature (config self)) = Inl e)"
  shows "\<exists>reviews t'.
     analyze_code_changes w self n k (t @ [GetRepo n, GetPull repo k, GetFiles pr]) =
       (Inr reviews, t') \<and>
     length reviews = length (slice_to all_files (max_files_to_review (config self))) \<and>
     finding_text (reviews ! i) = (filename F, Some (''Error analyzing file: '' @ str e)) \<and>
     map (\<lambda>r. Inr (finding_text r)) reviews =
       map (\<lambda>f. map_sum (\<lambda>e. e) finding_text (fst (analyze_file w self repo pr f [])))
         (slice_to all_files (max_files_to_review (config self))) \<and>
     review_pr w self n k t =
       (create_review w pr (review_body reviews) ''COMMENT'',
        t' @ [GetRepo n, GetPull repo k, CreateReview pr (review_body reviews) ''COMMENT''])"
proof -
  define fs where "fs = slice_to all_files (max_files_to_review (config self))"
  define B where "B = nat (batch_size (config self))"
  let ?t1 = "t @ [GetRepo n, GetPull repo k, GetFiles pr]"
  let ?t3 = "?t1 @ [GetRepo n, GetPull repo k, GetFiles pr]"
  let ?run = "batches w self repo pr fs (range_from 0 (length fs) B) []"
  let ?task = "\<lambda>f. map_sum (\<lambda>e. e) finding_text (fst (analyze_file w self repo pr f []))"
  have B: "0 < B" using assms(2) by (simp add: B_def)
  have run: "analyze_code_changes w self n k ?t1 = (Inr (fst (?run ?t3)), snd (?run ?t3))"
    unfolding fs_def B_def using assms(1-5) by (rule analyze_code_changes_run)
  have texts: "map (\<lambda>r. Inr (finding_text r)) (fst (?run ?t3)) = map ?task fs"
    unfolding B_def using B by (intro batches_range_text) (simp only: B_def)
  have len: "length (fst (?run ?t3)) = length fs"
    using arg_cong [OF texts, of length] by simp
  have i: "i < length fs" "fs ! i = F"
    using assms(6,7) by (simp_all only: fs_def)
  have "fst (analyze_file_try w self repo pr F []) = Inl e"
    using assms(8) by (rule analyze_file_try_fails)
  then have "?task F = Inr (filename F, Some (''Error analyzing file: '' @ str e))"
    by (rule analyze_file_error_finding)
  moreover have "Inr (finding_text (fst (?run ?t3) ! i)) = ?task (fs ! i)"
    using arg_cong [OF texts, of "\<lambda>xs. xs ! i"] i(1) len by simp
  ultimately have err:
    "finding_text (fst (?run ?t3) ! i) = (filename F, Some (''Error analyzing file: '' @ str e))"
    using i(2) by simp
  obtain details where "fetch_pr_details w n k t = (Inr details, ?t1)"
    using fetch_pr_details_ok [OF assms(3-5)] by blast
  then have "review_pr w self n k t = post_review w n k (fst (?run ?t3)) (snd (?run ?t3))"
    using run by (simp add: review_pr_def)
  then have pub: "review_pr w self n k t =
       (create_review w pr (review_body (fst (?run ?t3))) ''COMMENT'',
        snd (?run ?t3) @ [GetRepo n, GetPull repo k,
          CreateReview pr (review_body (fst (?run ?t3))) ''COMMENT''])"
    by (simp only: post_review_ok [OF assms(3,4)])
  show ?thesis
    using run len err texts pub unfolding fs_def [symmetric]
    by (intro exI [of _ "fst (?run ?t3)"] exI [of _ "snd (?run ?t3)"]) simp
qed


theorem file_failure_is_isolated_witness:
  "\<exists>reviews t'.
     analyze_code_changes world_ok (aenter init) ''org/repo'' 42
       [GetRepo ''org/repo'', GetPull (Repository ''org/repo'') 42, GetFiles pr42] =
       (Inr reviews, t') \<and>
     length reviews = 2 \<and>
     finding_text (reviews ! 0) = (''a.py'', Some ''Error analyzing file: 404 Not Found'') \<and>
     finding_text (reviews ! 1) = (''Makefile'', Some ''Looks good'') \<and>
     review_pr world_ok (aenter init) ''org/repo'' 42 [] =
       (Inr (),
        t' @ [GetRepo ''org/repo'', GetPull (Repository ''org/repo'') 42,
              CreateReview pr42 (review_body reviews) ''COMMENT''])"
proof -
  have fs: "slice_to [file_a, file_m] (max_files_to_review (config (aenter init))) =
            [file_a, file_m]"
    by (simp add: slice_to_def aenter_def init_def default_config_def)
  have task_m: "map_sum (\<lambda>e. e) finding_text
       (fst (analyze_file world_ok (aenter init) (Repository ''org/repo'') pr42 file_m [])) =
       Inr (''Makefile'', Some ''Looks good'')"
    by (simp add: analyze_file_def analyze_file_try_def analyze_file_content_def
          build_messages_total world_ok_def file_m_def decode_content_def aenter_def
          finding_text_def Let_def)
  have "\<exists>reviews t'.
     analyze_code_changes world_ok (aenter init) ''org/repo'' 42
       ([] @ [GetRepo ''org/repo'', GetPull (Repository ''org/repo'') 42, GetFiles pr42]) =
       (Inr reviews, t') \<and>
     length reviews =
       length (slice_to [file_a, file_m] (max_files_to_review (config (aenter init)))) \<and>
     finding_text (reviews ! 0) =
       (filename file_a, Some (''Error analyzing file: '' @ str (Exn ''404 Not Found''))) \<and>
     map (\<lambda>r. Inr (finding_text r)) reviews =
       map (\<lambda>f. map_sum (\<lambda>e. e) finding_text
              (fst (analyze_file world_ok (aenter init) (Repository ''org/repo'') pr42 f [])))
         (slice_to [file_a, file_m] (max_files_to_review (config (aenter init)))) \<and>
     review_pr world_ok (aenter init) ''org/repo'' 42 [] =
       (create_review world_ok pr42 (review_body reviews) ''COMMENT'',
        t' @ [GetRepo ''org/repo'', GetPull (Repository ''org/repo'') 42,
              CreateReview pr42 (review_body reviews) ''COMMENT''])"
    by (rule file_failure_is_isolated)
       (simp_all add: fs, simp_all add: world_ok_def aenter_def init_def default_config_def
          file_a_def)
  then obtain reviews t' where
    a: "analyze_code_changes world_ok (aenter init) ''org/repo'' 42
         [GetRepo ''org/repo'', GetPull (Repository ''org/repo'') 42, GetFiles pr42] =
         (Inr reviews, t')" and
    l: "length reviews = 2" and
    e: "finding_text (reviews ! 0) = (''a.py'', Some ''Error analyzing file: 404 Not Found'')" and
    m: "map (\<lambda>r. Inr (finding_text r) :: exn + string \<times> string option) reviews =
       map (\<lambda>f. map_sum (\<lambda>e. e) finding_text
              (fst (analyze_file world_ok (aenter init) (Repository ''org/repo'') pr42 f [])))
         [file_a, file_m]" and
    p: "review_pr world_ok (aenter init) ''org/repo'' 42 [] =
       (Inr (),
        t' @ [GetRepo ''org/repo'', GetPull (Repository ''org/repo'') 42,
              CreateReview pr42 (review_body reviews) ''COMMENT''])"
    unfolding fs by (auto simp add: file_a_def world_ok_def)
  have "Inr (finding_text (reviews ! 1)) =
        map_sum (\<lambda>e. e) finding_text
          (fst (analyze_file world_ok (aenter init) (Repository ''org/repo'') pr42 file_m []))"
    using arg_cong [OF m, of "\<lambda>xs. xs ! 1"] l by simp
  then have "finding_text (reviews ! 1) = (''Makefile'', Some ''Looks good'')"
    by (simp only: task_m sum.inject)
  with a l e p show ?thesis
    by blast
qed

subsection \<open>The calls of a whole run\<close>

lemma fetch_pr_details_events:
  "snd (fetch_pr_details w n k t) = t @ fetch_events w n k"
  by (simp add: fetch_pr_details_def fetch_events_def Let_def split: sum.splits)

lemma analyze_code_changes_events:
  assumes "\<And>a b c. \<not> P (ChatCreate a b c)" and "\<And>a b c. \<not> P (GetContents a b c)"
  shows "filter P (snd (analyze_code_changes w self n k t)) = filter P (t @ fetch_events w n k)"
proof -
  have b: "filter P (snd (batches w self repo pr fs idxs [] t3)) = filter P t3"
    for repo pr fs idxs t3
  proof -
    have "filter P (snd (batches w self repo pr fs idxs [] [])) = []"
      using assms(2) by (simp add: events_batches [of P, OF assms(1)])
    then show ?thesis
      using batches_shift [of w self repo pr fs idxs "[]" t3 "[]"] by simp
  qed
  show ?thesis
    by (simp add: analyze_code_changes_def fetch_events_def Let_def case_prod_beta b
          split: sum.splits)
qed


lemma review_pr_fetch_fails:
  assumes "fst (fetch_pr_details w n k t) = Inl e"
  shows "review_pr w self n k t = (Inl e, t @ fetch_events w n k)"
  using assms fetch_pr_details_events [of w n k t]
  by (cases "fetch_pr_details w n k t") (simp add: review_pr_def)

lemma fetch_pr_details_Inr:
  assumes "fst (fetch_pr_details w n k t) = Inr d"
  shows "\<exists>repo pr fs. get_repo w n = Inr repo \<and> get_pull w repo k = Inr pr \<and>
           get_files w pr = Inr fs"
  using assms by (auto simp add: fetch_pr_details_def Let_def split: sum.splits)

lemma post_review_events:
  assumes "get_repo w n = Inr repo" and "get_pull w repo k = Inr pr"
  shows "filter P (snd (post_review w n k reviews t)) =
         filter P (t @ [GetRepo n, GetPull repo k, CreateReview pr (review_body reviews) ''COMMENT''])"
  by (simp only: post_review_ok [OF assms] snd_conv)

text \<open>The shape of a run of review_pr once the first fetch has succeeded.\<close>

lemma review_pr_after_fetch:
  assumes "get_repo w n = Inr repo" and "get_pull w repo k = Inr pr"
    and "get_files w pr = Inr fs"
  shows "review_pr w self n k t =
     (case analyze_code_changes w self n k (t @ [GetRepo n, GetPull repo k, GetFiles pr]) of
        (Inl e, t2) \<Rightarrow> (Inl e, t2)
      | (Inr reviews, t2) \<Rightarrow>
          (create_review w pr (review_body reviews) ''COMMENT'',
           t2 @ [GetRepo n, GetPull repo k, CreateReview pr (review_body reviews) ''COMMENT'']))"
proof -
  obtain details where "fetch_pr_details w n k t =
      (Inr details, t @ [GetRepo n, GetPull repo k, GetFiles pr])"
    using fetch_pr_details_ok [OF assms] by blast
  then show ?thesis
    by (simp add: review_pr_def post_review_ok [OF assms(1,2)] split: prod.splits sum.splits)
qed

lemma analyze_code_changes_shift:
  "snd (analyze_code_changes w self n k t) = t @ snd (analyze_code_changes w self n k [])"
proof -
  have "snd (batches w self repo pr fs idxs [] (t @ es)) =
        t @ snd (batches w self repo pr fs idxs [] es)" for repo pr fs idxs es
    using batches_shift [of w self repo pr fs idxs "[]" "t @ es" "[]"]
      batches_shift [of w self repo pr fs idxs "[]" es "[]"] by simp
  then show ?thesis
    by (simp add: analyze_code_changes_def Let_def case_prod_beta split: sum.splits)
qed

lemma map_Inr_text:
  assumes "map (\<lambda>r. Inr (finding_text r) :: exn + string \<times> string option) xs =
           map (\<lambda>r. Inr (finding_text r)) ys"
  shows "map finding_text xs = map finding_text ys"
proof -
  have "map Inr (map finding_text xs) = (map Inr (map finding_text ys) :: (exn + string \<times> string option) list)"
    using assms by (simp add: comp_def)
  then show ?thesis
    by (simp only: inj_map_eq_map [OF inj_Inr])
qed

lemma batches_text_shift:
  "map finding_text (fst (batches w self repo pr fs idxs [] t)) =
   map finding_text (fst (batches w self repo pr fs idxs [] t'))"
  by (rule map_Inr_text) (simp only: batches_text)

lemma review_body_cong:
  assumes "map finding_text rs = map finding_text rs'"
  shows "review_body rs = review_body rs'"
proof -
  have "map (\<lambda>review. ''### '' @ review_filename review @ ''\<newline>'' @
                     format_opt (analysis review) @ ''\<newline>\<newline>'') xs =
        map ((\<lambda>p. ''### '' @ fst p @ ''\<newline>'' @ format_opt (snd p) @ ''\<newline>\<newline>'') \<circ> finding_text) xs"
    for xs
    by (simp add: finding_text_def)
  then show ?thesis
    using assms unfolding review_body_eq by (simp only: map_map [symmetric])
qed

lemma analyze_code_changes_body:
  "map_sum (\<lambda>e. e) review_body (fst (analyze_code_changes w self n k t)) =
   map_sum (\<lambda>e. e) review_body (fst (analyze_code_changes w self n k t'))"
proof -
  have "review_body (fst (batches w self repo pr fs idxs [] (t @ es))) =
        review_body (fst (batches w self repo pr fs idxs [] (t' @ es)))" for repo pr fs idxs es
    by (rule review_body_cong) (rule batches_text_shift)
  then show ?thesis
    by (simp add: analyze_code_changes_def Let_def case_prod_beta split: sum.splits)
qed

text \<open>
  A run of review_pr adds its calls to the trace it starts from, and neither its outcome
  nor its calls depend on what was called before.
\<close>

lemma review_pr_shift:
  "snd (review_pr w self n k t) = t @ snd (review_pr w self n k [])"
  "fst (review_pr w self n k t) = fst (review_pr w self n k [])"
proof -
  show "snd (review_pr w self n k t) = t @ snd (review_pr w self n k [])"
  proof (cases "fst (fetch_pr_details w n k [])")
    case (Inl e)
    then have "fst (fetch_pr_details w n k t) = Inl e"
      by (auto simp add: fetch_pr_details_def Let_def split: sum.splits)
    then show ?thesis
      using Inl by (simp add: review_pr_fetch_fails)
  next
    case (Inr d)
    then obtain repo pr fs where ok: "get_repo w n = Inr repo" "get_pull w repo k = Inr pr"
        "get_files w pr = Inr fs"
      using fetch_pr_details_Inr by blast
    let ?es = "[GetRepo n, GetPull repo k, GetFiles pr]"
    have s: "snd (analyze_code_changes w self n k (t @ ?es)) =
             t @ snd (analyze_code_changes w self n k ([] @ ?es))"
      using analyze_code_changes_shift [of w self n k "t @ ?es"]
        analyze_code_changes_shift [of w self n k "[] @ ?es"] by simp
    have b: "map_sum (\<lambda>e. e) review_body (fst (analyze_code_changes w self n k (t @ ?es))) =
             map_sum (\<lambda>e. e) review_body (fst (analyze_code_changes w self n k ([] @ ?es)))"
      by (rule analyze_code_changes_body)
    show ?thesis
      using s b
      by (cases "fst (analyze_code_changes w self n k (t @ ?es))";
          cases "fst (analyze_code_changes w self n k ([] @ ?es))")
         (simp_all add: review_pr_after_fetch [OF ok] case_prod_beta)
  qed
  show "fst (review_pr w self n k t) = fst (review_pr w self n k [])"
  proof (cases "fst (fetch_pr_details w n k [])")
    case (Inl e)
    then have "fst (fetch_pr_details w n k t) = Inl e"
      by (auto simp add: fetch_pr_details_def Let_def split: sum.splits)
    then show ?thesis
      using Inl by (simp add: review_pr_fetch_fails)
  next
    case (Inr d)
    then obtain repo pr fs where ok: "get_repo w n = Inr repo" "get_pull w repo k = Inr pr"
        "get_files w pr = Inr fs"
      using fetch_pr_details_Inr by blast
    let ?es = "[GetRepo n, GetPull repo k, GetFiles pr]"
    have b: "map_sum (\<lambda>e. e) review_body (fst (analyze_code_changes w self n k (t @ ?es))) =
             map_sum (\<lambda>e. e) review_body (fst (analyze_code_changes w self n k ([] @ ?es)))"
      by (rule analyze_code_changes_body)
    show ?thesis
      using b
      by (cases "fst (analyze_code_changes w self n k (t @ ?es))";
          cases "fst (analyze_code_changes w self n k ([] @ ?es))")
         (simp_all add: review_pr_after_fetch [OF ok] case_prod_beta)
  qed
qed

text \<open>
  The calls of a run of review_pr after a successful first fetch, seen through a filter
  that lets no per-file call pass, and the outcome of the run.
\<close>

lemma review_pr_events:
  assumes "\<And>a b c. \<not> P (ChatCreate a b c)" and "\<And>a b c. \<not> P (GetContents a b c)"
    and "get_repo w n = Inr repo" and "get_pull w repo k = Inr pr"
    and "get_files w pr = Inr fs"
  shows "filter P (snd (review_pr w self n k [])) =
     (case fst (analyze_code_changes w self n k [GetRepo n, GetPull repo k, GetFiles pr]) of
        Inl e \<Rightarrow>
          filter P [GetRepo n, GetPull repo k, GetFiles pr, GetRepo n, GetPull repo k, GetFiles pr]
      | Inr reviews \<Rightarrow>
          filter P [GetRepo n, GetPull repo k, GetFiles pr, GetRepo n, GetPull repo k, GetFiles pr,
            GetRepo n, GetPull repo k, CreateReview pr (review_body reviews) ''COMMENT''])"
    and "fst (review_pr w self n k []) =
     (case fst (analyze_code_changes w self n k [GetRepo n, GetPull repo k, GetFiles pr]) of
        Inl e \<Rightarrow> Inl e
      | Inr reviews \<Rightarrow> create_review w pr (review_body reviews) ''COMMENT'')"
proof -
  let ?es = "[GetRepo n, GetPull repo k, GetFiles pr]"
  have ev: "fetch_events w n k = ?es"
    using assms(3,4) by (simp add: fetch_events_def)
  have a: "filter P (snd (analyze_code_changes w self n k ?es)) = filter P (?es @ ?es)"
    using analyze_code_changes_events [of P w self n k ?es, OF assms(1,2)] by (simp only: ev)
  show "filter P (snd (review_pr w self n k [])) =
     (case fst (analyze_code_changes w self n k ?es) of
        Inl e \<Rightarrow>
          filter P [GetRepo n, GetPull repo k, GetFiles pr, GetRepo n, GetPull repo k, GetFiles pr]
      | Inr reviews \<Rightarrow>
          filter P [GetRepo n, GetPull repo k, GetFiles pr, GetRepo n, GetPull repo k, GetFiles pr,
            GetRepo n, GetPull repo k, CreateReview pr (review_body reviews) ''COMMENT''])"
    using a
    by (cases "fst (analyze_code_changes w self n k ?es)")
       (simp_all add: review_pr_after_fetch [OF assms(3-5)] case_prod_beta)
  show "fst (review_pr w self n k []) =
     (case fst (analyze_code_changes w self n k ?es) of
        Inl e \<Rightarrow> Inl e
      | Inr reviews \<Rightarrow> create_review w pr (review_body reviews) ''COMMENT'')"
    by (cases "fst (analyze_code_changes w self n k ?es)")
       (simp_all add: review_pr_after_fetch [OF assms(3-5)] case_prod_beta)
qed

lemma review_pr_world_ok:
  "fst (review_pr world_ok (aenter init) ''org/repo'' 42 []) = Inr ()"
proof -
  let ?es = "[GetRepo ''org/repo'', GetPull (Repository ''org/repo'') 42, GetFiles pr42]"
  have f: "fst (review_pr world_ok (aenter init) ''org/repo'' 42 []) =
     (case fst (analyze_code_changes world_ok (aenter init) ''org/repo'' 42 ?es) of
        Inl e \<Rightarrow> Inl e
      | Inr reviews \<Rightarrow> create_review world_ok pr42 (review_body reviews) ''COMMENT'')"
    by (rule review_pr_events(2) [of is_CreateReview world_ok _ _ _ _ "[file_a, file_m]"])
       (simp_all add: world_ok_def)
  obtain reviews where "fst (analyze_code_changes world_ok (aenter init) ''org/repo'' 42 ?es) =
      Inr reviews"
    using analyze_code_changes_run [of "aenter init" world_ok "''org/repo''"
        "Repository ''org/repo''" 42 pr42 "[file_a, file_m]" ?es]
    by (simp add: world_ok_def aenter_def init_def default_config_def)
  then show ?thesis
    by (simp add: f) (simp add: world_ok_def)
qed

subsection \<open>No partial publication\<close>

text \<open>The functions over a host that never changes are the functions over its world.\<close>

lemma fetch_pr_details_h_const: "fetch_pr_details_h (\<lambda>_. w) n k t = fetch_pr_details w n k t"
  by (simp add: fetch_pr_details_h_def fetch_pr_details_def)

lemma analyze_file_content_h_const:
  "analyze_file_content_h (\<lambda>_. w) self s fname p t = analyze_file_content w self s fname p t"
  by (simp add: analyze_file_content_h_def analyze_file_content_def)

lemma analyze_file_resume_h_const:
  "analyze_file_resume_h (\<lambda>_. w) self f c t = analyze_file_resume w self f c t"
  by (simp add: analyze_file_resume_h_def analyze_file_resume_def analyze_file_rest_h_def
        analyze_file_rest_def analyze_file_content_h_const split: sum.splits)

lemma start_tasks_h_const: "start_tasks_h (\<lambda>_. w) repo pr batch t = start_tasks w repo pr batch t"
  by (induction batch arbitrary: t) simp_all

lemma resume_tasks_h_const: "resume_tasks_h (\<lambda>_. w) self tasks t = resume_tasks w self tasks t"
proof (induction tasks arbitrary: t)
  case Nil
  then show ?case by simp
next
  case (Cons p tasks)
  obtain f c where p: "p = (f, c)" by (cases p)
  show ?case
    by (simp add: p analyze_file_resume_h_const Cons.IH split: prod.splits)
qed

lemma gather_h_const: "gather_h (\<lambda>_. w) self repo pr batch t = gather w self repo pr batch t"
  by (simp add: gather_h_def gather_def start_tasks_h_const resume_tasks_h_const)

lemma batches_h_const:
  "batches_h (\<lambda>_. w) self repo pr fs idxs reviews t = batches w self repo pr fs idxs reviews t"
  by (induction idxs arbitrary: reviews t) (simp_all add: gather_h_const split: prod.splits)

lemma analyze_code_changes_h_const:
  "analyze_code_changes_h (\<lambda>_. w) self n k t = analyze_code_changes w self n k t"
  by (simp add: analyze_code_changes_h_def analyze_code_changes_def batches_h_const Let_def
        split: sum.splits)

lemma post_review_h_const: "post_review_h (\<lambda>_. w) n k reviews t = post_review w n k reviews t"
  by (simp add: post_review_h_def post_review_def)

lemma review_pr_h_const: "review_pr_h (\<lambda>_. w) self n k t = review_pr w self n k t"
  by (simp add: review_pr_h_def review_pr_def fetch_pr_details_h_const
        analyze_code_changes_h_const post_review_h_const split: prod.splits sum.splits)


lemma adds_no_review_iff:
  "adds_no_review t t' \<longleftrightarrow> (\<exists>es. t' = t @ es \<and> filter is_CreateReview es = [])"
proof
  assume "adds_no_review t t'"
  then have "t' = t @ drop (length t) t'" "filter is_CreateReview (drop (length t) t') = []"
    unfolding adds_no_review_def by (metis append_take_drop_id, simp)
  then show "\<exists>es. t' = t @ es \<and> filter is_CreateReview es = []"
    by blast
next
  assume "\<exists>es. t' = t @ es \<and> filter is_CreateReview es = []"
  then show "adds_no_review t t'"
    by (auto simp add: adds_no_review_def)
qed

lemma adds_no_review_refl: "adds_no_review t t"
  by (simp add: adds_no_review_def)

lemma adds_no_review_trans:
  assumes "adds_no_review t t1" and "adds_no_review t1 t2"
  shows "adds_no_review t t2"
proof -
  obtain es1 es2 where "t1 = t @ es1" "filter is_CreateReview es1 = []"
      "t2 = t1 @ es2" "filter is_CreateReview es2 = []"
    using assms by (auto simp add: adds_no_review_iff)
  then have "t2 = t @ (es1 @ es2) \<and> filter is_CreateReview (es1 @ es2) = []"
    by simp
  then show ?thesis
    unfolding adds_no_review_iff by blast
qed

lemma adds_no_review_snoc:
  assumes "\<not> is_CreateReview ev"
  shows "adds_no_review t (t @ [ev])"
  using assms by (simp add: adds_no_review_def)

lemma fetch_pr_details_h_quiet: "adds_no_review t (snd (fetch_pr_details_h h n k t))"
  by (simp add: fetch_pr_details_h_def adds_no_review_def Let_def split: sum.splits)

lemma analyze_file_content_h_quiet:
  "adds_no_review t (snd (analyze_file_content_h h self s fname p t))"
  by (simp add: analyze_file_content_h_def adds_no_review_def Let_def
        split: sum.splits option.splits list.splits)

lemma analyze_file_resume_h_quiet:
  "adds_no_review t (snd (analyze_file_resume_h h self f c t))"
  by (simp add: analyze_file_resume_h_def analyze_file_rest_h_def analyze_file_content_h_def
        adds_no_review_def Let_def split: sum.splits option.splits list.splits)

lemma start_tasks_h_quiet: "adds_no_review t (snd (start_tasks_h h repo pr batch t))"
proof (induction batch arbitrary: t)
  case Nil
  then show ?case by (simp add: adds_no_review_refl)
next
  case (Cons f batch)
  let ?t1 = "t @ [GetContents repo (filename f) (pr_head_ref pr)]"
  have "adds_no_review t ?t1"
    by (rule adds_no_review_snoc) simp
  then have "adds_no_review t (snd (start_tasks_h h repo pr batch ?t1))"
    using Cons.IH [of ?t1] by (rule adds_no_review_trans)
  then show ?case
    by (simp add: case_prod_beta)
qed

lemma resume_tasks_h_quiet: "adds_no_review t (snd (resume_tasks_h h self tasks t))"
proof (induction tasks arbitrary: t)
  case Nil
  then show ?case by (simp add: adds_no_review_refl)
next
  case (Cons p tasks)
  obtain f c where p: "p = (f, c)" by (cases p)
  let ?t1 = "snd (analyze_file_resume_h h self f c t)"
  have "adds_no_review t (snd (resume_tasks_h h self tasks ?t1))"
    using analyze_file_resume_h_quiet Cons.IH [of ?t1] by (rule adds_no_review_trans)
  then show ?case
    by (simp add: p case_prod_beta)
qed

lemma gather_h_quiet: "adds_no_review t (snd (gather_h h self repo pr batch t))"
proof -
  let ?s = "start_tasks_h h repo pr batch t"
  have "adds_no_review t (snd (resume_tasks_h h self (zip batch (fst ?s)) (snd ?s)))"
    using start_tasks_h_quiet resume_tasks_h_quiet by (rule adds_no_review_trans)
  then show ?thesis
    by (simp add: gather_h_def case_prod_beta)
qed

lemma batches_h_quiet: "adds_no_review t (snd (batches_h h self repo pr fs idxs reviews t))"
proof (induction idxs arbitrary: reviews t)
  case Nil
  then show ?case by (simp add: adds_no_review_refl)
next
  case (Cons i idxs)
  let ?g = "gather_h h self repo pr (slice fs i (i + nat (batch_size (config self)))) t"
  have "adds_no_review t
     (snd (batches_h h self repo pr fs idxs (reviews @ not_exceptions (fst ?g)) (snd ?g)))"
    using gather_h_quiet Cons.IH by (rule adds_no_review_trans)
  then show ?case
    by (simp add: Let_def case_prod_beta)
qed

lemma analyze_code_changes_h_quiet:
  "adds_no_review t (snd (analyze_code_changes_h h self n k t))"
proof -
  have "adds_no_review t (snd (batches_h h self repo pr fs idxs [] (t @ [a, b, c])))"
    if "\<not> is_CreateReview a" "\<not> is_CreateReview b" "\<not> is_CreateReview c"
    for repo pr fs idxs a b c
  proof -
    have "adds_no_review t (t @ [a, b, c])"
      using that by (simp add: adds_no_review_def)
    then show ?thesis
      using batches_h_quiet by (rule adds_no_review_trans)
  qed
  then show ?thesis
    by (simp add: analyze_code_changes_h_def Let_def case_prod_beta adds_no_review_def
          split: sum.splits)
qed

lemma posted_reviews_append:
  "posted_reviews h t (es @ es') = posted_reviews h t es @ posted_reviews h (t @ es) es'"
proof (induction es arbitrary: t)
  case Nil
  then show ?case by simp
next
  case (Cons ev es)
  then show ?case
    by (cases ev) simp_all
qed

lemma posted_reviews_quiet:
  "filter is_CreateReview es = [] \<Longrightarrow> posted_reviews h t es = []"
proof (induction es arbitrary: t)
  case Nil
  then show ?case by simp
next
  case (Cons ev es)
  then show ?case
    by (cases ev) (simp_all split: if_splits)
qed

lemma post_review_h_publish:
  "\<exists>ps. snd (post_review_h h n k reviews t) = t @ ps \<and>
     (case fst (post_review_h h n k reviews t) of
        Inr _ \<Rightarrow> length (filter is_CreateReview ps) = 1 \<and> length (posted_reviews h t ps) = 1
      | Inl _ \<Rightarrow> length (filter is_CreateReview ps) \<le> 1 \<and> posted_reviews h t ps = [])"
  by (simp add: post_review_h_def Let_def split: sum.splits)

text \<open>
  Claim C5. For every run of review_pr, against any host, also one that answers a repeated
  fetch differently: if the first fetch of the change request (fetch_pr_details) raises,
  the same exception leaves review_pr and create_review is not called. A run ends either
  normally, with exactly one create_review call, which returned (the review is posted), or
  with an exception and no posted review: create_review was then called at most once and
  did not return. This holds wherever the run fails, in the first fetch, in a fetch
  repeated by analyze_code_changes or by post_review, in the loop, or in create_review
  itself; the run only adds calls to the trace it started from.
\<close>

theorem no_partial_publish:
  "(fst (fetch_pr_details_h h n k t) = Inl e \<longrightarrow>
      fst (review_pr_h h self n k t) = Inl e \<and>
      filter is_CreateReview (drop (length t) (snd (review_pr_h h self n k t))) = []) \<and>
   take (length t) (snd (review_pr_h h self n k t)) = t \<and>
   (case fst (review_pr_h h self n k t) of
      Inr _ \<Rightarrow>
        length (filter is_CreateReview (drop (length t) (snd (review_pr_h h self n k t)))) = 1 \<and>
        length (posted_reviews h t (drop (length t) (snd (review_pr_h h self n k t)))) = 1
    | Inl _ \<Rightarrow>
        length (filter is_CreateReview (drop (length t) (snd (review_pr_h h self n k t)))) \<le> 1 \<and>
        posted_reviews h t (drop (length t) (snd (review_pr_h h self n k t))) = [])"
proof -
  obtain r1 t1 where f: "fetch_pr_details_h h n k t = (r1, t1)"
    by (cases "fetch_pr_details_h h n k t")
  obtain es1 where t1: "t1 = t @ es1" "filter is_CreateReview es1 = []"
    using fetch_pr_details_h_quiet [of t h n k] f by (auto simp add: adds_no_review_iff)
  show ?thesis
  proof (cases r1)
    case (Inl e1)
    then have "review_pr_h h self n k t = (Inl e1, t @ es1)"
      using f t1(1) by (simp add: review_pr_h_def)
    then show ?thesis
      using f Inl t1(2) by (simp add: posted_reviews_quiet)
  next
    case (Inr d)
    obtain r2 t2 where a: "analyze_code_changes_h h self n k t1 = (r2, t2)"
      by (cases "analyze_code_changes_h h self n k t1")
    obtain es2 where t2: "t2 = t1 @ es2" "filter is_CreateReview es2 = []"
      using analyze_code_changes_h_quiet [of t1 h self n k] a
      by (auto simp add: adds_no_review_iff)
    have quiet: "filter is_CreateReview (es1 @ es2) = []"
      using t1(2) t2(2) by simp
    show ?thesis
    proof (cases r2)
      case (Inl e2)
      then have "review_pr_h h self n k t = (Inl e2, t @ es1 @ es2)"
        using f a Inr t1(1) t2(1) by (simp add: review_pr_h_def)
      then show ?thesis
        using f Inr quiet by (simp add: posted_reviews_quiet)
    next
      case reviews: (Inr reviews)
      obtain ps where ps: "snd (post_review_h h n k reviews t2) = t2 @ ps"
        "case fst (post_review_h h n k reviews t2) of
           Inr _ \<Rightarrow> length (filter is_CreateReview ps) = 1 \<and>
                     length (posted_reviews h t2 ps) = 1
         | Inl _ \<Rightarrow> length (filter is_CreateReview ps) \<le> 1 \<and> posted_reviews h t2 ps = []"
        using post_review_h_publish [of h n k reviews t2] by blast
      have run: "review_pr_h h self n k t = post_review_h h n k reviews t2"
        using f a Inr reviews by (simp add: review_pr_h_def)
      define es where "es = es1 @ es2"
      have es: "t2 = t @ es" "filter is_CreateReview es = []"
        using quiet t1(1) t2(1) by (simp_all add: es_def)
      have d: "drop (length t) (snd (review_pr_h h self n k t)) = es @ ps"
        and tk: "take (length t) (snd (review_pr_h h self n k t)) = t"
        using ps(1) es(1) by (simp_all add: run)
      have res: "fst (review_pr_h h self n k t) = fst (post_review_h h n k reviews t2)"
        by (simp only: run)
      have posted: "posted_reviews h t (es @ ps) = posted_reviews h t2 ps"
        using es by (simp add: posted_reviews_append posted_reviews_quiet)
      have count: "filter is_CreateReview (es @ ps) = filter is_CreateReview ps"
        using es(2) by simp
      show ?thesis
        using f Inr ps(2) unfolding d tk res posted count
        by (simp split: sum.splits)
    qed
  qed
qed

theorem no_partial_publish_witness:
  "fst (fetch_pr_details_h (\<lambda>_. world_down) ''org/repo'' 42 []) = Inl (Exn ''404 Not Found'') \<and>
   fst (review_pr_h (\<lambda>_. world_down) (aenter init) ''org/repo'' 42 []) =
     Inl (Exn ''404 Not Found'') \<and>
   filter is_CreateReview (snd (review_pr_h (\<lambda>_. world_down) (aenter init) ''org/repo'' 42 [])) =
     [] \<and>
   fst (review_pr_h host_flaky (aenter init) ''org/repo'' 42 []) = Inl (Exn ''502 Bad Gateway'') \<and>
   length (filter is_GetRepo (snd (review_pr_h host_flaky (aenter init) ''org/repo'' 42 []))) = 3 \<and>
   posted_reviews host_flaky [] (snd (review_pr_h host_flaky (aenter init) ''org/repo'' 42 [])) =
     [] \<and>
   fst (review_pr_h (\<lambda>_. world_ok) (aenter init) ''org/repo'' 42 []) = Inr () \<and>
   length (posted_reviews (\<lambda>_. world_ok) []
     (snd (review_pr_h (\<lambda>_. world_ok) (aenter init) ''org/repo'' 42 []))) = 1"
proof -
  have down: "fst (fetch_pr_details_h (\<lambda>_. world_down) ''org/repo'' 42 []) =
      Inl (Exn ''404 Not Found'')"
    by (simp add: fetch_pr_details_h_def world_down_def world_ok_def Let_def)
  note d = no_partial_publish [of "\<lambda>_. world_down" "''org/repo''" 42 "[]"
      "Exn ''404 Not Found''" "aenter init"]
  have d1: "fst (review_pr_h (\<lambda>_. world_down) (aenter init) ''org/repo'' 42 []) =
      Inl (Exn ''404 Not Found'')"
    and d2: "filter is_CreateReview
      (snd (review_pr_h (\<lambda>_. world_down) (aenter init) ''org/repo'' 42 [])) = []"
    using d down by simp_all
  have f1: "fst (review_pr_h host_flaky (aenter init) ''org/repo'' 42 []) =
      Inl (Exn ''502 Bad Gateway'')"
    by code_simp
  have f2: "length (filter is_GetRepo
      (snd (review_pr_h host_flaky (aenter init) ''org/repo'' 42 []))) = 3"
    by code_simp
  note f = no_partial_publish [of host_flaky "''org/repo''" 42 "[]" "Exn ''404 Not Found''"
      "aenter init"]
  have f3: "posted_reviews host_flaky []
      (snd (review_pr_h host_flaky (aenter init) ''org/repo'' 42 [])) = []"
    using f f1 by simp
  have u1: "fst (review_pr_h (\<lambda>_. world_ok) (aenter init) ''org/repo'' 42 []) = Inr ()"
    by (simp only: review_pr_h_const review_pr_world_ok)
  note u = no_partial_publish [of "\<lambda>_. world_ok" "''org/repo''" 42 "[]"
      "Exn ''404 Not Found''" "aenter init"]
  have u2: "length (posted_reviews (\<lambda>_. world_ok) []
     (snd (review_pr_h (\<lambda>_. world_ok) (aenter init) ''org/repo'' 42 []))) = 1"
    using u u1 by simp
  from down d1 d2 f1 f2 f3 u1 u2 show ?thesis
    by simp
qed

subsection \<open>How often the change request is fetched\<close>

text \<open>
  On the example change request the run completes, and the repository and the change
  request are fetched three times, the file list twice: the summary is not fetched once
  for the whole run.
\<close>

theorem summary_fetched_once_counterexample:
  "fst (review_pr world_ok (aenter init) ''org/repo'' 42 []) = Inr () \<and>
   length (filter is_GetRepo (snd (review_pr world_ok (aenter init) ''org/repo'' 42 []))) = 3 \<and>
   length (filter is_GetPull (snd (review_pr world_ok (aenter init) ''org/repo'' 42 []))) = 3 \<and>
   length (filter is_GetFiles (snd (review_pr world_ok (aenter init) ''org/repo'' 42 []))) = 2"
proof -
  let ?es = "[GetRepo ''org/repo'', GetPull (Repository ''org/repo'') 42, GetFiles pr42]"
  obtain reviews where a: "fst (analyze_code_changes world_ok (aenter init) ''org/repo'' 42 ?es) =
      Inr reviews"
    using analyze_code_changes_run [of "aenter init" world_ok "''org/repo''"
        "Repository ''org/repo''" 42 pr42 "[file_a, file_m]" ?es]
    by (simp add: world_ok_def aenter_def init_def default_config_def)
  have ok: "get_repo world_ok ''org/repo'' = Inr (Repository ''org/repo'')"
    "get_pull world_ok (Repository ''org/repo'') 42 = Inr pr42"
    "get_files world_ok pr42 = Inr [file_a, file_m]"
    by (simp_all add: world_ok_def)
  have "length (filter is_GetRepo (snd (review_pr world_ok (aenter init) ''org/repo'' 42 []))) = 3"
    using a by (simp add: review_pr_events(1) [of is_GetRepo, OF _ _ ok])
  moreover
  have "length (filter is_GetPull (snd (review_pr world_ok (aenter init) ''org/repo'' 42 []))) = 3"
    using a by (simp add: review_pr_events(1) [of is_GetPull, OF _ _ ok])
  moreover
  have "length (filter is_GetFiles (snd (review_pr world_ok (aenter init) ''org/repo'' 42 []))) = 2"
    using a by (simp add: review_pr_events(1) [of is_GetFiles, OF _ _ ok])
  ultimately show ?thesis
    using review_pr_world_ok by simp
qed

text \<open>
  Claim C9, as the code has it. For every run of review_pr that completes, the repository,
  the change request and the file list are fetched by fetch_pr_details at the start, and
  each later stage fetches again instead of using that result: analyze_code_changes
  fetches the repository, the change request and the file list a second time, and
  post_review fetches the repository and the change request a third time. The fetches of
  the run are, in this order and with the same arguments each time: repository, change
  request, file list; repository, change request, file list; repository, change request.
\<close>

theorem summary_is_refetched:
  assumes "fst (review_pr w self n k t) = Inr u"
  shows "\<exists>repo pr.
     filter (\<lambda>ev. is_GetRepo ev \<or> is_GetPull ev \<or> is_GetFiles ev)
       (drop (length t) (snd (review_pr w self n k t))) =
     [GetRepo n, GetPull repo k, GetFiles pr,
      GetRepo n, GetPull repo k, GetFiles pr,
      GetRepo n, GetPull repo k]"
proof -
  have new: "drop (length t) (snd (review_pr w self n k t)) = snd (review_pr w self n k [])"
    using review_pr_shift(1) [of w self n k t] by simp
  have r: "fst (review_pr w self n k []) = Inr u"
    using assms by (simp only: review_pr_shift(2) [of w self n k t])
  have "\<exists>d. fst (fetch_pr_details w n k []) = Inr d"
  proof (cases "fst (fetch_pr_details w n k [])")
    case (Inl e)
    then show ?thesis
      using r by (simp add: review_pr_fetch_fails)
  next
    case (Inr d)
    then show ?thesis by blast
  qed
  then obtain repo pr fs where ok: "get_repo w n = Inr repo" "get_pull w repo k = Inr pr"
      "get_files w pr = Inr fs"
    using fetch_pr_details_Inr by blast
  let ?P = "\<lambda>ev. is_GetRepo ev \<or> is_GetPull ev \<or> is_GetFiles ev"
  note f = review_pr_events(2) [of ?P w n repo k pr fs self, OF _ _ ok, simplified]
  note c = review_pr_events(1) [of ?P w n repo k pr fs self, OF _ _ ok, simplified]
  have "filter ?P (snd (review_pr w self n k [])) =
     [GetRepo n, GetPull repo k, GetFiles pr,
      GetRepo n, GetPull repo k, GetFiles pr,
      GetRepo n, GetPull repo k]"
    using r
    by (cases "fst (analyze_code_changes w self n k [GetRepo n, GetPull repo k, GetFiles pr])")
       (simp_all add: f c)
  then show ?thesis
    unfolding new by blast
qed

theorem summary_is_refetched_witness:
  "fst (review_pr world_ok (aenter init) ''org/repo'' 42 []) = Inr () \<and>
   (\<exists>repo pr.
     filter (\<lambda>ev. is_GetRepo ev \<or> is_GetPull ev \<or> is_GetFiles ev)
       (snd (review_pr world_ok (aenter init) ''org/repo'' 42 [])) =
     [GetRepo ''org/repo'', GetPull repo 42, GetFiles pr,
      GetRepo ''org/repo'', GetPull repo 42, GetFiles pr,
      GetRepo ''org/repo'', GetPull repo 42])"
  using summary_is_refetched [of world_ok "aenter init" "''org/repo''" 42 "[]" "()"]
    review_pr_world_ok
  by simp

subsection \<open>Closing the session\<close>

lemma review_pr_no_close:
  "filter is_SessionClose (snd (review_pr w self n k [])) = []"
  "filter is_OpenAIClose (snd (review_pr w self n k [])) = []"
proof -
  have "filter is_SessionClose (snd (review_pr w self n k [])) = [] \<and>
        filter is_OpenAIClose (snd (review_pr w self n k [])) = []"
  proof (cases "fst (fetch_pr_details w n k [])")
    case (Inl e)
    then show ?thesis
      by (simp add: review_pr_fetch_fails fetch_events_def split: sum.splits)
  next
    case (Inr d)
    then obtain repo pr fs where ok: "get_repo w n = Inr repo" "get_pull w repo k = Inr pr"
        "get_files w pr = Inr fs"
      using fetch_pr_details_Inr by blast
    note s = review_pr_events(1) [of is_SessionClose w n repo k pr fs self, OF _ _ ok, simplified]
    note c = review_pr_events(1) [of is_OpenAIClose w n repo k pr fs self, OF _ _ ok, simplified]
    show ?thesis
      by (simp add: s c split: sum.splits)
  qed
  then show "filter is_SessionClose (snd (review_pr w self n k [])) = []"
    and "filter is_OpenAIClose (snd (review_pr w self n k [])) = []"
    by simp_all
qed

text \<open>
  In a world where the repository is not found and the HTTP session fails to close, the
  run ends with the error of the close, not with the error of the review, and the
  completion client is never closed.
\<close>

theorem teardown_counterexample:
  "fst (review_pr world_down (aenter init) ''org/repo'' 42 []) = Inl (Exn ''404 Not Found'') \<and>
   run_reviewer world_down ''org/repo'' 42 [] =
     (Inl (Exn ''Session is closed''), [GetRepo ''org/repo'', SessionClose])"
  by (simp add: run_reviewer_def review_pr_def fetch_pr_details_def aexit_def aenter_def
        init_def world_down_def world_ok_def Let_def)

text \<open>
  Claim C7, as the code has it. On leaving the session, whether the review returned or
  raised, the HTTP session is closed exactly once; the completion client is closed exactly
  once when the close of the session returned, and is not closed when that close raised.
  An exception of a close is not swallowed: the first close that raises ends the run with
  its exception, in place of the outcome of the review. When neither close raises, the
  outcome of the review, its result or its exception, leaves the run unchanged.
\<close>

theorem teardown_closes_handles:
  "length (filter is_SessionClose (drop (length t) (snd (run_reviewer w n k t)))) = 1 \<and>
   length (filter is_OpenAIClose (drop (length t) (snd (run_reviewer w n k t)))) =
     (case session_close w of Inl _ \<Rightarrow> 0 | Inr _ \<Rightarrow> 1) \<and>
   fst (run_reviewer w n k t) =
     (case session_close w of
        Inl e \<Rightarrow> Inl e
      | Inr _ \<Rightarrow>
          (case openai_close w of
             Inl e \<Rightarrow> Inl e
           | Inr _ \<Rightarrow> fst (review_pr w (aenter init) n k t)))"
proof -
  let ?r = "review_pr w (aenter init) n k"
  have s: "snd (?r t) = t @ snd (?r [])"
    by (rule review_pr_shift(1))
  have run: "run_reviewer w n k t =
     (case session_close w of
        Inl e \<Rightarrow> (Inl e, t @ snd (?r []) @ [SessionClose])
      | Inr _ \<Rightarrow>
          (case openai_close w of
             Inl e \<Rightarrow> (Inl e, t @ snd (?r []) @ [SessionClose, OpenAIClose])
           | Inr _ \<Rightarrow> (fst (?r t), t @ snd (?r []) @ [SessionClose, OpenAIClose])))"
    using s
    by (simp add: run_reviewer_def aexit_def Let_def case_prod_beta aenter_def
          split: sum.splits)
  show ?thesis
    by (simp add: run review_pr_no_close split: sum.splits)
qed

theorem teardown_closes_handles_witness:
  "length (filter is_SessionClose (snd (run_reviewer world_ok ''org/repo'' 42 []))) = 1 \<and>
   length (filter is_OpenAIClose (snd (run_reviewer world_ok ''org/repo'' 42 []))) = 1 \<and>
   fst (run_reviewer world_ok ''org/repo'' 42 []) = Inr () \<and>
   length (filter is_SessionClose (snd (run_reviewer world_down ''org/repo'' 42 []))) = 1 \<and>
   length (filter is_OpenAIClose (snd (run_reviewer world_down ''org/repo'' 42 []))) = 0 \<and>
   fst (run_reviewer world_down ''org/repo'' 42 []) = Inl (Exn ''Session is closed'')"
  using teardown_closes_handles [of "[]" world_ok "''org/repo''" 42]
    teardown_closes_handles [of "[]" world_down "''org/repo''" 42]
    review_pr_world_ok
  by (simp add: world_ok_def world_down_def)

subsection \<open>The prompt\<close>

lemma dict_get_cong: "map_of d1 = map_of d2 \<Longrightarrow> dict_get d1 k = dict_get d2 k"
  by (simp add: dict_get_def)

lemma analyze_file_content_request:
  assumes "openai_client self = Some h"
  shows "snd (analyze_file_content w self file_content fname ptch t) =
     t @ [ChatCreate (openai_model (config self))
            [Message ''system'' system_prompt,
             Message ''user''
               (prompt_text fname (lower (last (str_split fname (CHR ''.''))))
                  (dict_get (language_specific_rules (config self))
                     (lower (last (str_split fname (CHR ''.'')))))
                  ptch)]
            (openai_temperature (config self))]"
  using assms
  by (simp add: analyze_file_content_def build_messages_total Let_def
        split: sum.splits list.splits)

text \<open>
  Claim C8. The prompt builder (lines 160 to 186 of _analyze_file_content) is a function of
  the file path, the diff patch and the dictionary of language rules alone: two
  invocations with the same path and patch, under configurations that hold the same
  dictionary of rule sets, build the same system prompt and the same user prompt,
  character for character, and these are the messages of the one completion request each
  invocation submits; the world, the calls made before, the file content passed along and
  the other fields of the configuration play no part. The completion client is set in
  both invocations, as it is inside the session.
\<close>

theorem prompt_builder_deterministic:
  assumes "map_of (language_specific_rules (config self1)) =
           map_of (language_specific_rules (config self2))"
    and "openai_client self1 = Some h1" and "openai_client self2 = Some h2"
  shows "build_messages (config self1) fname ptch = build_messages (config self2) fname ptch \<and>
     (\<exists>system_content user_content.
        build_messages (config self1) fname ptch =
          Inr [Message ''system'' system_content, Message ''user'' user_content] \<and>
        request_messages
          (drop (length t1) (snd (analyze_file_content w1 self1 content1 fname ptch t1))) =
          [[Message ''system'' system_content, Message ''user'' user_content]] \<and>
        request_messages
          (drop (length t2) (snd (analyze_file_content w2 self2 content2 fname ptch t2))) =
          [[Message ''system'' system_content, Message ''user'' user_content]])"
proof -
  let ?ext = "lower (last (str_split fname (CHR ''.'')))"
  have rules: "dict_get (language_specific_rules (config self1)) ?ext =
               dict_get (language_specific_rules (config self2)) ?ext"
    using assms(1) by (rule dict_get_cong)
  have b: "build_messages (config self1) fname ptch = build_messages (config self2) fname ptch"
    by (simp only: build_messages_total rules)
  have r1: "snd (analyze_file_content w1 self1 content1 fname ptch t1) =
     t1 @ [ChatCreate (openai_model (config self1))
            [Message ''system'' system_prompt,
             Message ''user''
               (prompt_text fname ?ext (dict_get (language_specific_rules (config self1)) ?ext) ptch)]
            (openai_temperature (config self1))]"
    by (rule analyze_file_content_request [OF assms(2)])
  have r2: "snd (analyze_file_content w2 self2 content2 fname ptch t2) =
     t2 @ [ChatCreate (openai_model (config self2))
            [Message ''system'' system_prompt,
             Message ''user''
               (prompt_text fname ?ext (dict_get (language_specific_rules (config self2)) ?ext) ptch)]
            (openai_temperature (config self2))]"
    by (rule analyze_file_content_request [OF assms(3)])
  show ?thesis
    using b by (simp add: r1 r2 rules build_messages_total)
qed

theorem prompt_builder_deterministic_witness:
  "build_messages (config (aenter init)) ''main.python'' ''+x'' =
     build_messages (config reviewer53) ''main.python'' ''+x'' \<and>
   (\<exists>system_content user_content.
      build_messages (config (aenter init)) ''main.python'' ''+x'' =
        Inr [Message ''system'' system_content, Message ''user'' user_content] \<and>
      request_messages (snd (analyze_file_content world_ok (aenter init) ''x = 1''
          ''main.python'' ''+x'' [])) =
        [[Message ''system'' system_content, Message ''user'' user_content]] \<and>
      request_messages (snd (analyze_file_content world7 reviewer53 [] ''main.python'' ''+x'' [])) =
        [[Message ''system'' system_content, Message ''user'' user_content]])"
  using prompt_builder_deterministic [of "aenter init" reviewer53 AsyncOpenAI AsyncOpenAI
      "''main.python''" "''+x''" "[]" world_ok "''x = 1''" "[]" world7 "[]"]
  by (auto simp add: aenter_def init_def reviewer53_def)

text \<open>
  Claim C10. The completion request of the per-file analysis depends on the file path,
  the patch and the configuration only: two runs of _analyze_file on the same file, in
  worlds whose content fetch for it succeeds and decodes to any two texts (the empty text
  included, also for an object without decoded content), with the completion client set,
  each submit exactly one completion request, and the two requests carry the same system
  prompt and the same user prompt.
\<close>

theorem prompt_independent_of_content:
  assumes "get_contents w1 repo (filename f) (pr_head_ref pr) = Inr c1"
    and "decode_content c1 = Inr content1"
    and "get_contents w2 repo (filename f) (pr_head_ref pr) = Inr c2"
    and "decode_content c2 = Inr content2"
    and "openai_client self = Some h"
  shows "\<exists>system_content user_content.
     filter is_ChatCreate (drop (length t1) (snd (analyze_file w1 self repo pr f t1))) =
       [ChatCreate (openai_model (config self))
          [Message ''system'' system_content, Message ''user'' user_content]
          (openai_temperature (config self))] \<and>
     filter is_ChatCreate (drop (length t2) (snd (analyze_file w2 self repo pr f t2))) =
       [ChatCreate (openai_model (config self))
          [Message ''system'' system_content, Message ''user'' user_content]
          (openai_temperature (config self))]"
proof -
  have s: "snd (analyze_file w self repo pr f t) = snd (analyze_file_try w self repo pr f t)"
    for w t
    by (auto simp add: analyze_file_def split: prod.splits sum.splits)
  have 1: "snd (analyze_file_try w1 self repo pr f t1) =
      snd (analyze_file_content w1 self content1 (filename f) (patch_or_empty f)
             (t1 @ [GetContents repo (filename f) (pr_head_ref pr)]))"
    using assms(1,2) by (simp add: analyze_file_try_def Let_def)
  have 2: "snd (analyze_file_try w2 self repo pr f t2) =
      snd (analyze_file_content w2 self content2 (filename f) (patch_or_empty f)
             (t2 @ [GetContents repo (filename f) (pr_head_ref pr)]))"
    using assms(3,4) by (simp add: analyze_file_try_def Let_def)
  have r1: "snd (analyze_file_content w1 self content1 (filename f) (patch_or_empty f)
             (t1 @ [GetContents repo (filename f) (pr_head_ref pr)])) =
     (t1 @ [GetContents repo (filename f) (pr_head_ref pr)]) @
       [ChatCreate (openai_model (config self))
            [Message ''system'' system_prompt,
             Message ''user''
               (prompt_text (filename f) (lower (last (str_split (filename f) (CHR ''.''))))
                  (dict_get (language_specific_rules (config self))
                     (lower (last (str_split (filename f) (CHR ''.'')))))
                  (patch_or_empty f))]
            (openai_temperature (config self))]"
    by (rule analyze_file_content_request [OF assms(5)])
  have r2: "snd (analyze_file_content w2 self content2 (filename f) (patch_or_empty f)
             (t2 @ [GetContents repo (filename f) (pr_head_ref pr)])) =
     (t2 @ [GetContents repo (filename f) (pr_head_ref pr)]) @
       [ChatCreate (openai_model (config self))
            [Message ''system'' system_prompt,
             Message ''user''
               (prompt_text (filename f) (lower (last (str_split (filename f) (CHR ''.''))))
                  (dict_get (language_specific_rules (config self))
                     (lower (last (str_split (filename f) (CHR ''.'')))))
                  (patch_or_empty f))]
            (openai_temperature (config self))]"
    by (rule analyze_file_content_request [OF assms(5)])
  show ?thesis
    by (simp add: s 1 2 r1 r2)
qed

theorem prompt_independent_of_content_witness:
  "\<exists>system_content user_content.
     filter is_ChatCreate
       (snd (analyze_file world_ok (aenter init) (Repository ''org/repo'') pr42 file_m [])) =
       [ChatCreate ''gpt-4''
          [Message ''system'' system_content, Message ''user'' user_content] (3 / 10)] \<and>
     filter is_ChatCreate
       (snd (analyze_file world_empty (aenter init) (Repository ''org/repo'') pr42 file_m [])) =
       [ChatCreate ''gpt-4''
          [Message ''system'' system_content, Message ''user'' user_content] (3 / 10)]"
  using prompt_independent_of_content [of world_ok "Repository ''org/repo''" file_m pr42
      "ContentFile (Inr ''all:'')" "''all:''" world_empty NoDecodedContent "[]" "aenter init"
      AsyncOpenAI "[]" "[]"]
  by (auto simp add: world_ok_def world_empty_def file_m_def decode_content_def aenter_def
        init_def default_config_def)

end
